(* ===== verification/Prelude.thy ===== *)
theory Prelude
  imports Main "HOL-Library.Word" "HOL-Library.List_Lexorder" "HOL-Library.Sublist"
    "HOL-Library.Code_Target_Nat"
begin

text \<open>
  Shared vocabulary of the development: bytes and little-endian numbers, the error type of
  \<^verbatim>\<open>std::io\<close>, the result and reader combinators that stand for the \<^verbatim>\<open>?\<close> operator of Rust,
  the writer that keeps what was written before a failure, checked arithmetic of \<^verbatim>\<open>usize\<close>, and
  the lemmas about them that the component theories use. Slices of bytes are compared with the
  lexicographic order of \<^verbatim>\<open>HOL-Library.List_Lexorder\<close>, as \<^verbatim>\<open>Ord for [u8]\<close> does.
\<close>

named_theorems reader_iff \<open>characterisations of the successful runs of a decoder\<close>
named_theorems writer_eval \<open>evaluation of the writers\<close>

section \<open>Bytes and integers\<close>

type_synonym byte = "8 word"
type_synonym bytes = "byte list"
type_synonym u64 = "64 word"

text \<open>A byte-string literal such as \<^verbatim>\<open>b"nix-archive-1"\<close>.\<close>

definition ascii :: "string \<Rightarrow> bytes" where
  "ascii s = map of_char s"

text \<open>\<^verbatim>\<open>to_le_bytes\<close> and \<^verbatim>\<open>from_le_bytes\<close> at any width, on the unsigned value.\<close>

primrec le_bytes :: "nat \<Rightarrow> nat \<Rightarrow> bytes" where
  "le_bytes 0 n = []"
| "le_bytes (Suc k) n = of_nat n # le_bytes k (n div 256)"

primrec le_nat :: "bytes \<Rightarrow> nat" where
  "le_nat [] = 0"
| "le_nat (b # bs) = unat b + 256 * le_nat bs"

text \<open>Decimal rendering of a number, for the error messages built with \<^verbatim>\<open>format!\<close>.\<close>

fun show_nat :: "nat \<Rightarrow> string" where
  "show_nat n = (if n < 10 then [char_of (48 + n)] else show_nat (n div 10) @ [char_of (48 + n mod 10)])"

declare show_nat.simps [simp del]

text \<open>Arithmetic of \<^verbatim>\<open>usize\<close> and \<^verbatim>\<open>u64\<close> values held as natural numbers.\<close>

definition usize_limit :: nat where
  "usize_limit = 2 ^ 64"

definition checked_add :: "nat \<Rightarrow> nat \<Rightarrow> nat option" where
  "checked_add a b = (if a + b < usize_limit then Some (a + b) else None)"

definition checked_mul :: "nat \<Rightarrow> nat \<Rightarrow> nat option" where
  "checked_mul a b = (if a * b < usize_limit then Some (a * b) else None)"

definition wrapping_sub :: "nat \<Rightarrow> nat \<Rightarrow> nat" where
  "wrapping_sub a b = (a + (usize_limit - b mod usize_limit)) mod usize_limit"

definition saturating_add :: "nat \<Rightarrow> nat \<Rightarrow> nat" where
  "saturating_add a b = min (a + b) (usize_limit - 1)"

definition saturating_mul :: "nat \<Rightarrow> nat \<Rightarrow> nat" where
  "saturating_mul a b = min (a * b) (usize_limit - 1)"

text \<open>The byte classes of \<^verbatim>\<open>u8\<close> that the validators use.\<close>

definition is_ascii_lowercase :: "byte \<Rightarrow> bool" where
  "is_ascii_lowercase b \<longleftrightarrow> 97 \<le> b \<and> b \<le> 122"

definition is_ascii_uppercase :: "byte \<Rightarrow> bool" where
  "is_ascii_uppercase b \<longleftrightarrow> 65 \<le> b \<and> b \<le> 90"

definition is_ascii_digit :: "byte \<Rightarrow> bool" where
  "is_ascii_digit b \<longleftrightarrow> 48 \<le> b \<and> b \<le> 57"

definition is_ascii_alphanumeric :: "byte \<Rightarrow> bool" where
  "is_ascii_alphanumeric b \<longleftrightarrow> is_ascii_lowercase b \<or> is_ascii_uppercase b \<or> is_ascii_digit b"

definition is_ascii_hexdigit :: "byte \<Rightarrow> bool" where
  "is_ascii_hexdigit b \<longleftrightarrow> is_ascii_digit b \<or> (97 \<le> b \<and> b \<le> 102) \<or> (65 \<le> b \<and> b \<le> 70)"

text \<open>\<^verbatim>\<open>slice::split\<close> on one separator: the pieces between the separators, at least one.\<close>

fun split_on :: "'a \<Rightarrow> 'a list \<Rightarrow> 'a list list" where
  "split_on c [] = [[]]"
| "split_on c (x # xs) = (if x = c then [] # split_on c xs
      else (case split_on c xs of [] \<Rightarrow> [[x]] | p # ps \<Rightarrow> (x # p) # ps))"

text \<open>\<^verbatim>\<open>iter().position\<close> of the first element that is \<^verbatim>\<open>c\<close>.\<close>

fun position :: "'a \<Rightarrow> 'a list \<Rightarrow> nat option" where
  "position c [] = None"
| "position c (x # xs) = (if x = c then Some 0 else map_option Suc (position c xs))"

definition ends_with :: "'a list \<Rightarrow> 'a list \<Rightarrow> bool" where
  "ends_with s t \<longleftrightarrow> suffix t s"

definition starts_with :: "'a list \<Rightarrow> 'a list \<Rightarrow> bool" where
  "starts_with s t \<longleftrightarrow> prefix t s"

section \<open>Errors\<close>

datatype io_kind =
    NotFound | InvalidData | InvalidInput | UnexpectedEof | TimedOut | WouldBlock
  | Unsupported | NotConnected | ConnectionReset | WriteZero | StorageFull | Other

datatype io_error = IoError (io_error_kind: io_kind) (io_error_message: string)

abbreviation invalid_data :: "string \<Rightarrow> io_error" where
  "invalid_data m \<equiv> IoError InvalidData m"

abbreviation invalid_input :: "string \<Rightarrow> io_error" where
  "invalid_input m \<equiv> IoError InvalidInput m"

section \<open>Results and readers\<close>

text \<open>
  A fallible function returns \<^verbatim>\<open>'e + 'a\<close> with the error on the left. A decoder moves a state
  forward and drops it on failure; the caller that ends a session on an error never reads on.
\<close>

type_synonym ('e, 'a, 's) run = "'s \<Rightarrow> 'e + ('a \<times> 's)"

definition ok :: "'a \<Rightarrow> ('e, 'a, 's) run" where
  "ok x s = Inr (x, s)"

definition fail_with :: "'e \<Rightarrow> ('e, 'a, 's) run" where
  "fail_with e s = Inl e"

definition and_then :: "('e, 'a, 's) run \<Rightarrow> ('a \<Rightarrow> ('e, 'b, 's) run) \<Rightarrow> ('e, 'b, 's) run" where
  "and_then m k s = (case m s of Inl e \<Rightarrow> Inl e | Inr (x, s1) \<Rightarrow> k x s1)"

definition ensure :: "bool \<Rightarrow> 'e \<Rightarrow> ('e, unit, 's) run" where
  "ensure c e s = (if c then Inr ((), s) else Inl e)"

definition map_err :: "('e \<Rightarrow> 'f) \<Rightarrow> ('e, 'a, 's) run \<Rightarrow> ('f, 'a, 's) run" where
  "map_err f m s = (case m s of Inl e \<Rightarrow> Inl (f e) | Inr r \<Rightarrow> Inr r)"

definition lift_result :: "'e + 'a \<Rightarrow> ('e, 'a, 's) run" where
  "lift_result r s = (case r of Inl e \<Rightarrow> Inl e | Inr x \<Rightarrow> Inr (x, s))"

definition on_fst :: "('e, 'a, 's) run \<Rightarrow> ('e, 'a, 's \<times> 't) run" where
  "on_fst m st = (case m (fst st) of Inl e \<Rightarrow> Inl e | Inr (x, s1) \<Rightarrow> Inr (x, (s1, snd st)))"

definition result_map_err :: "('e \<Rightarrow> 'f) \<Rightarrow> 'e + 'a \<Rightarrow> 'f + 'a" where
  "result_map_err f r = (case r of Inl e \<Rightarrow> Inl (f e) | Inr x \<Rightarrow> Inr x)"

definition result_then :: "'e + 'a \<Rightarrow> ('a \<Rightarrow> 'e + 'b) \<Rightarrow> 'e + 'b" where
  "result_then r k = (case r of Inl e \<Rightarrow> Inl e | Inr x \<Rightarrow> k x)"

text \<open>A counted loop that collects what its body returns.\<close>

primrec repeat_run :: "nat \<Rightarrow> ('e, 'a, 's) run \<Rightarrow> ('e, 'a list, 's) run" where
  "repeat_run 0 m = ok []"
| "repeat_run (Suc n) m = and_then m (\<lambda>x. and_then (repeat_run n m) (\<lambda>xs. ok (x # xs)))"

section \<open>Writers\<close>

text \<open>
  A writer appends to the bytes already sent. What was written before a failure stays written,
  so the output is part of the answer in both cases.
\<close>

type_synonym 'a writer = "bytes \<Rightarrow> (io_error + 'a) \<times> bytes"

definition emit :: "bytes \<Rightarrow> unit writer" where
  "emit bs out = (Inr (), out @ bs)"

definition w_ok :: "'a \<Rightarrow> 'a writer" where
  "w_ok x out = (Inr x, out)"

definition w_then :: "'a writer \<Rightarrow> ('a \<Rightarrow> 'b writer) \<Rightarrow> 'b writer" where
  "w_then m k out = (case m out of (Inl e, out1) \<Rightarrow> (Inl e, out1) | (Inr x, out1) \<Rightarrow> k x out1)"

definition w_lift :: "io_error + 'a \<Rightarrow> 'a writer" where
  "w_lift r out = (r, out)"

definition w_ensure :: "bool \<Rightarrow> io_error \<Rightarrow> unit writer" where
  "w_ensure c e out = ((if c then Inr () else Inl e), out)"

primrec w_each :: "('a \<Rightarrow> unit writer) \<Rightarrow> 'a list \<Rightarrow> unit writer" where
  "w_each f [] = w_ok ()"
| "w_each f (x # xs) = w_then (f x) (\<lambda>_. w_each f xs)"

section \<open>Lemmas on bytes and numbers\<close>

lemma length_ascii [simp]: "length (ascii s) = length s"
  by (simp add: ascii_def)

lemma length_le_bytes [simp]: "length (le_bytes k n) = k"
  by (induction k arbitrary: n) auto

lemma unat_of_nat_byte: "unat (of_nat n :: byte) = n mod 256"
  by (simp add: unat_of_nat)

lemma unat_byte_less: "unat (b :: byte) < 256"
  using unsigned_less [of b] by simp

lemma le_nat_le_bytes: "le_nat (le_bytes k n) = n mod 256 ^ k"
proof (induction k arbitrary: n)
  case (Suc k)
  have "n mod 256 + 256 * (n div 256 mod 256 ^ k) = n mod (256 * 256 ^ k)"
    by (simp add: mod_mult2_eq)
  then show ?case using Suc by (simp add: unat_of_nat_byte)
qed simp

lemma le_nat_bound: "le_nat bs < 256 ^ length bs"
proof (induction bs)
  case (Cons b bs)
  show ?case using Cons unat_byte_less [of b] by simp
qed simp

lemma le_bytes_le_nat: "le_bytes (length bs) (le_nat bs) = bs"
proof (induction bs)
  case (Cons b bs)
  note b = unat_byte_less [of b]
  then have "(unat b + 256 * le_nat bs) div 256 = le_nat bs" by simp
  moreover have "(of_nat (unat b + 256 * le_nat bs) :: byte) = b"
  proof -
    have "unat (of_nat (unat b + 256 * le_nat bs) :: byte) = unat b"
      using b by (simp add: unat_of_nat_byte del: of_nat_add of_nat_mult)
    then show ?thesis by (simp add: word_unat_eq_iff)
  qed
  ultimately show ?case using Cons by (simp del: of_nat_add of_nat_mult)
qed simp

lemma le_bytes_num:
  "le_bytes (numeral k) n = of_nat n # le_bytes (pred_numeral k) (n div 256)"
  by (simp only: numeral_eq_Suc le_bytes.simps)

lemma if_eqE:
  "(if b then x else y) = z \<Longrightarrow> (b \<Longrightarrow> x = z \<Longrightarrow> P) \<Longrightarrow> (y = z \<Longrightarrow> P) \<Longrightarrow> P"
  by (auto split: if_split_asm)

lemma replicate_num: "replicate (numeral k) x = x # replicate (pred_numeral k) x"
  by (simp only: numeral_eq_Suc replicate.simps)

lemma checked_add_eq_Some [simp]:
  "checked_add a b = Some c \<longleftrightarrow> c = a + b \<and> a + b < usize_limit"
  by (auto simp: checked_add_def)

lemma checked_mul_eq_Some [simp]:
  "checked_mul a b = Some c \<longleftrightarrow> c = a * b \<and> a * b < usize_limit"
  by (auto simp: checked_mul_def)

lemma checked_add_eq_None [simp]: "checked_add a b = None \<longleftrightarrow> usize_limit \<le> a + b"
  by (auto simp: checked_add_def)

lemma checked_mul_eq_None [simp]: "checked_mul a b = None \<longleftrightarrow> usize_limit \<le> a * b"
  by (auto simp: checked_mul_def)

lemma wrapping_sub_eq: "b \<le> a \<Longrightarrow> a < usize_limit \<Longrightarrow> wrapping_sub a b = a - b"
proof -
  assume ba: "b \<le> a" and a: "a < usize_limit"
  have "a + (usize_limit - b) = (a - b) + usize_limit" using ba a by simp
  then have "wrapping_sub a b = (a - b + usize_limit) mod usize_limit"
    using ba a by (simp add: wrapping_sub_def)
  also have "\<dots> = a - b" using a by (metis less_imp_diff_less mod_add_self2 mod_less)
  finally show ?thesis .
qed

lemma ex_length_Suc: "(\<exists>vs. length vs = Suc k \<and> P vs) \<longleftrightarrow> (\<exists>v vs. length vs = k \<and> P (v # vs))"
  by (auto simp: length_Suc_conv)

section \<open>Lemmas on splitting\<close>

lemma split_on_notin: "c \<notin> set xs \<Longrightarrow> split_on c xs = [xs]"
  by (induction xs) auto

lemma split_on_nonempty [simp]: "split_on c xs \<noteq> []"
  by (induction xs) (auto split: list.split)

lemma split_on_append: "split_on c (xs @ c # ys) = split_on c xs @ split_on c ys"
  by (induction xs) (auto split: list.splits)

lemma position_None: "position c xs = None \<longleftrightarrow> c \<notin> set xs"
  by (induction xs) auto

lemma position_Some:
  "position c xs = Some i \<longleftrightarrow> (\<exists>ys zs. xs = ys @ c # zs \<and> c \<notin> set ys \<and> length ys = i)"
proof (induction xs arbitrary: i)
  case (Cons x xs)
  show ?case
  proof (cases "x = c")
    case False
    have "position c (x # xs) = Some i \<longleftrightarrow> (\<exists>j. position c xs = Some j \<and> i = Suc j)"
      using False by auto
    also have "\<dots> \<longleftrightarrow> (\<exists>ys zs. xs = ys @ c # zs \<and> c \<notin> set ys \<and> Suc (length ys) = i)"
      using Cons.IH by auto
    also have "\<dots> \<longleftrightarrow> (\<exists>ys zs. x # xs = ys @ c # zs \<and> c \<notin> set ys \<and> length ys = i)" (is "?l \<longleftrightarrow> ?r")
    proof
      assume ?l
      then obtain ys zs where "xs = ys @ c # zs \<and> c \<notin> set ys \<and> Suc (length ys) = i" by blast
      then show ?r using False by (intro exI [of _ "x # ys"] exI [of _ zs]) auto
    qed (use False in \<open>auto simp: Cons_eq_append_conv\<close>)
    finally show ?thesis .
  qed (auto simp: Cons_eq_append_conv)
qed simp

lemma first_split_unique:
  assumes "c \<notin> set ys" and "c \<notin> set ps"
  shows "ys @ c # zs = ps @ c # qs \<longleftrightarrow> ys = ps \<and> zs = qs"
proof
  assume eq: "ys @ c # zs = ps @ c # qs"
  have "position c (ys @ c # zs) = Some (length ys)" "position c (ps @ c # qs) = Some (length ps)"
    using assms by (auto simp: position_Some)
  then have "length ys = length ps" using eq by simp
  then show "ys = ps \<and> zs = qs" using eq by simp
qed simp

lemma split_on_first: "c \<notin> set ys \<Longrightarrow> split_on c (ys @ c # zs) = ys # split_on c zs"
  by (simp add: split_on_append split_on_notin)

lemma split_on_single: "split_on c xs = [p] \<longleftrightarrow> c \<notin> set xs \<and> p = xs"
proof (cases "c \<in> set xs")
  case True
  then obtain ys zs where "xs = ys @ c # zs" "c \<notin> set ys" by (meson split_list_first)
  then show ?thesis by (simp add: split_on_first)
qed (auto simp: split_on_notin)

lemma split_on_pair: "split_on c xs = [p, q] \<longleftrightarrow> xs = p @ c # q \<and> c \<notin> set p \<and> c \<notin> set q"
proof (cases "c \<in> set xs")
  case True
  then obtain ys zs where "xs = ys @ c # zs" "c \<notin> set ys" by (meson split_list_first)
  then show ?thesis
    using first_split_unique [of c ys p zs q] by (auto simp: split_on_first split_on_single)
qed (auto simp: split_on_notin)

section \<open>Lemmas on readers and writers\<close>

lemma ok_Inr [reader_iff]: "ok x s = Inr (y, s') \<longleftrightarrow> y = x \<and> s' = s"
  by (auto simp: ok_def)

lemma fail_with_Inr [reader_iff]: "fail_with e s = Inr r \<longleftrightarrow> False"
  by (simp add: fail_with_def)

lemma and_then_Inr [reader_iff]:
  "and_then m k s = Inr (y, s') \<longleftrightarrow> (\<exists>x s1. m s = Inr (x, s1) \<and> k x s1 = Inr (y, s'))"
  by (auto simp: and_then_def split: sum.splits)

lemma ensure_Inr [reader_iff]: "ensure c e s = Inr (u, s') \<longleftrightarrow> c \<and> s' = s"
  by (auto simp: ensure_def)

lemma map_err_Inr [reader_iff]: "map_err f m s = Inr r \<longleftrightarrow> m s = Inr r"
  by (auto simp: map_err_def split: sum.splits)

lemma lift_result_Inr [reader_iff]: "lift_result r s = Inr (x, s') \<longleftrightarrow> r = Inr x \<and> s' = s"
  by (auto simp: lift_result_def split: sum.splits)

lemma on_fst_Inr [reader_iff]:
  "on_fst m st = Inr (x, st') \<longleftrightarrow> m (fst st) = Inr (x, fst st') \<and> snd st' = snd st"
  by (cases st; cases st') (auto simp: on_fst_def split: sum.splits)

lemma result_map_err_Inr [simp]: "result_map_err f r = Inr x \<longleftrightarrow> r = Inr x"
  by (auto simp: result_map_err_def split: sum.splits)

lemma result_then_Inr [simp]: "result_then r k = Inr y \<longleftrightarrow> (\<exists>x. r = Inr x \<and> k x = Inr y)"
  by (auto simp: result_then_def split: sum.splits)

lemma emit_eval [writer_eval]: "emit bs out = (Inr (), out @ bs)"
  by (simp add: emit_def)

lemma w_ok_eval [writer_eval]: "w_ok x out = (Inr x, out)"
  by (simp add: w_ok_def)

lemma w_then_eval [writer_eval]:
  "w_then m k out = (case fst (m out) of Inl e \<Rightarrow> (Inl e, snd (m out)) | Inr x \<Rightarrow> k x (snd (m out)))"
  by (simp add: w_then_def split: sum.splits prod.splits)

lemma w_ensure_eval [writer_eval]: "w_ensure c e out = ((if c then Inr () else Inl e), out)"
  by (simp add: w_ensure_def)

lemma w_lift_eval [writer_eval]: "w_lift r out = (r, out)"
  by (simp add: w_lift_def)

lemma w_each_eval:
  "(\<And>x out. x \<in> set xs \<Longrightarrow> f x out = (Inr (), out @ g x)) \<Longrightarrow>
   w_each f xs out = (Inr (), out @ concat (map g xs))"
  by (induction xs arbitrary: out) (simp_all add: writer_eval)

section \<open>Decimal numbers\<close>

text \<open>\<^verbatim>\<open>str::parse::<u64>\<close>: an optional plus sign and at least one digit, within range.\<close>

definition digit_value :: "char \<Rightarrow> nat option" where
  "digit_value c = (let n = of_char c :: nat in if 48 \<le> n \<and> n \<le> 57 then Some (n - 48) else None)"

fun parse_digits :: "nat \<Rightarrow> string \<Rightarrow> nat option" where
  "parse_digits acc [] = Some acc"
| "parse_digits acc (c # cs) =
     (case digit_value c of
        None \<Rightarrow> None
      | Some d \<Rightarrow> if acc * 10 + d < 2 ^ 64 then parse_digits (acc * 10 + d) cs else None)"

definition parse_u64 :: "string \<Rightarrow> nat option" where
  "parse_u64 s =
     (let digits = (case s of c # cs \<Rightarrow> if c = CHR ''+'' then cs else s | [] \<Rightarrow> s) in
      if digits = [] then None else parse_digits 0 digits)"

lemma parse_digits_append:
  "parse_digits acc (xs @ ys) = (case parse_digits acc xs of None \<Rightarrow> None | Some a \<Rightarrow> parse_digits a ys)"
  by (induction xs arbitrary: acc) (auto split: option.splits)

lemma parse_digits_bound: "\<lbrakk>parse_digits acc xs = Some n; acc < 2 ^ 64\<rbrakk> \<Longrightarrow> n < 2 ^ 64"
  by (induction xs arbitrary: acc) (auto split: option.splits if_splits)

lemma digit_value_digit [simp]: "d < 10 \<Longrightarrow> digit_value (char_of (48 + d)) = Some d"
  by (simp add: digit_value_def Let_def of_char_of take_bit_eq_mod)

lemma parse_digits_show_nat: "n < 2 ^ 64 \<Longrightarrow> parse_digits 0 (show_nat n) = Some n"
proof (induction n rule: show_nat.induct)
  case (1 n)
  show ?case
  proof (cases "n < 10")
    case True
    then show ?thesis using 1 by (subst show_nat.simps) simp
  next
    case False
    then have "parse_digits 0 (show_nat (n div 10)) = Some (n div 10)" using 1 by simp
    moreover have "n div 10 * 10 + n mod 10 = n" by simp
    ultimately show ?thesis using False 1(2) by (subst show_nat.simps) (simp add: parse_digits_append)
  qed
qed

lemma show_nat_head: "\<exists>d cs. show_nat n = char_of (48 + d :: nat) # cs \<and> d < 10"
proof (induction n rule: show_nat.induct)
  case (1 n)
  show ?case
  proof (cases "n < 10")
    case True
    then show ?thesis by (subst show_nat.simps) (auto intro: exI [of _ n])
  next
    case False
    with 1 obtain d cs where "show_nat (n div 10) = char_of (48 + d :: nat) # cs" "d < 10" by blast
    then show ?thesis using False by (subst show_nat.simps) (auto intro: exI [of _ d])
  qed
qed

lemma parse_u64_show_nat:
  assumes "n < 2 ^ 64"
  shows "parse_u64 (show_nat n) = Some n"
proof -
  obtain d :: nat and cs where h: "show_nat n = char_of (48 + d) # cs" "d < 10" using show_nat_head by blast
  have "char_of (48 + d) \<noteq> CHR ''+''"
  proof
    assume "char_of (48 + d) = CHR ''+''"
    then have "digit_value CHR ''+'' = Some d" using digit_value_digit [OF h(2)] by simp
    then show False by (simp add: digit_value_def Let_def)
  qed
  then show ?thesis using parse_digits_show_nat [OF assms] h(1) by (simp add: parse_u64_def)
qed

lemma parse_u64_bound: "parse_u64 t = Some n \<Longrightarrow> n < 2 ^ 64"
  by (auto simp: parse_u64_def Let_def simp del: parse_digits.simps split: if_splits list.splits
      dest: parse_digits_bound)

end
