(* ===== verification/Budget.thy ===== *)
theory Budget
  imports Prelude "HOL-Library.Multiset"
begin

text \<open>
  The allocation budget of a session (\<^verbatim>\<open>SessionAllocationBudget\<close> of
  \<^verbatim>\<open>nix-worker-protocol/src/protocol.rs\<close>): the limit constants, \<^verbatim>\<open>charge\<close>, the release that
  dropping a charge performs, and the compare-and-exchange loop as a step relation between the
  threads that share one counter.
\<close>

section \<open>Limits\<close>

definition MAXIMUM_STRUCTURED_FRAME_MESSAGE_BYTES :: nat where
  "MAXIMUM_STRUCTURED_FRAME_MESSAGE_BYTES = 16 * 1024"

definition MAXIMUM_STRUCTURED_FRAME_FIELDS :: nat where
  "MAXIMUM_STRUCTURED_FRAME_FIELDS = 64"

definition MAXIMUM_STRUCTURED_FRAME_FIELD_BYTES :: nat where
  "MAXIMUM_STRUCTURED_FRAME_FIELD_BYTES = 4 * 1024"

definition MAXIMUM_HANDSHAKE_FEATURES :: nat where
  "MAXIMUM_HANDSHAKE_FEATURES = 64"

definition MAXIMUM_HANDSHAKE_FEATURE_LENGTH :: nat where
  "MAXIMUM_HANDSHAKE_FEATURE_LENGTH = 1024"

definition NIX_STORE_DIRECTORY :: bytes where
  "NIX_STORE_DIRECTORY = ascii ''/nix/store/''"

definition NIX_STORE_HASH_LENGTH :: nat where
  "NIX_STORE_HASH_LENGTH = 32"

definition NIX_STORE_HASH_ALPHABET :: bytes where
  "NIX_STORE_HASH_ALPHABET = ascii ''0123456789abcdfghijklmnpqrsvwxyz''"

definition MAXIMUM_QUERY_VALID_PATHS :: nat where
  "MAXIMUM_QUERY_VALID_PATHS = 65536"

definition MAXIMUM_ADD_MULTIPLE_TO_STORE_OBJECTS :: nat where
  "MAXIMUM_ADD_MULTIPLE_TO_STORE_OBJECTS = 65536"

definition MAXIMUM_ADD_MULTIPLE_TO_STORE_REFERENCES :: nat where
  "MAXIMUM_ADD_MULTIPLE_TO_STORE_REFERENCES = 65536"

definition MAXIMUM_ADD_MULTIPLE_TO_STORE_SIGNATURES :: nat where
  "MAXIMUM_ADD_MULTIPLE_TO_STORE_SIGNATURES = 256"

definition MAXIMUM_ADD_MULTIPLE_TO_STORE_HASH_BYTES :: nat where
  "MAXIMUM_ADD_MULTIPLE_TO_STORE_HASH_BYTES = 64"

definition MAXIMUM_ADD_MULTIPLE_TO_STORE_SIGNATURE_BYTES :: nat where
  "MAXIMUM_ADD_MULTIPLE_TO_STORE_SIGNATURE_BYTES = 4096"

definition MAXIMUM_ADD_MULTIPLE_TO_STORE_CONTENT_ADDRESS_BYTES :: nat where
  "MAXIMUM_ADD_MULTIPLE_TO_STORE_CONTENT_ADDRESS_BYTES = 4096"

definition MAXIMUM_WORKER_STORE_PATH_BYTES :: nat where
  "MAXIMUM_WORKER_STORE_PATH_BYTES = length NIX_STORE_DIRECTORY + 211"

definition MAXIMUM_BUILD_DERIVATION_OUTPUTS :: nat where
  "MAXIMUM_BUILD_DERIVATION_OUTPUTS = 16"

definition MAXIMUM_BUILD_DERIVATION_INPUT_SOURCES :: nat where
  "MAXIMUM_BUILD_DERIVATION_INPUT_SOURCES = 4096"

definition MAXIMUM_BUILD_DERIVATION_ARGUMENTS :: nat where
  "MAXIMUM_BUILD_DERIVATION_ARGUMENTS = 1024"

definition MAXIMUM_BUILD_DERIVATION_ENVIRONMENT :: nat where
  "MAXIMUM_BUILD_DERIVATION_ENVIRONMENT = 4096"

definition MAXIMUM_BUILD_DERIVATION_OUTPUT_NAME_BYTES :: nat where
  "MAXIMUM_BUILD_DERIVATION_OUTPUT_NAME_BYTES = 256"

definition MAXIMUM_BUILD_DERIVATION_PLATFORM_BYTES :: nat where
  "MAXIMUM_BUILD_DERIVATION_PLATFORM_BYTES = 64"

definition MAXIMUM_BUILD_DERIVATION_BUILDER_BYTES :: nat where
  "MAXIMUM_BUILD_DERIVATION_BUILDER_BYTES = 4096"

definition MAXIMUM_BUILD_DERIVATION_ARGUMENT_BYTES :: nat where
  "MAXIMUM_BUILD_DERIVATION_ARGUMENT_BYTES = 64 * 1024"

definition MAXIMUM_BUILD_DERIVATION_ENVIRONMENT_KEY_BYTES :: nat where
  "MAXIMUM_BUILD_DERIVATION_ENVIRONMENT_KEY_BYTES = 4096"

definition MAXIMUM_BUILD_DERIVATION_ENVIRONMENT_VALUE_BYTES :: nat where
  "MAXIMUM_BUILD_DERIVATION_ENVIRONMENT_VALUE_BYTES = 1024 * 1024"

definition MAXIMUM_BUILD_DERIVATION_HASH_ALGORITHM_BYTES :: nat where
  "MAXIMUM_BUILD_DERIVATION_HASH_ALGORITHM_BYTES = 64"

definition MAXIMUM_BUILD_DERIVATION_HASH_BYTES :: nat where
  "MAXIMUM_BUILD_DERIVATION_HASH_BYTES = 256"

lemmas limit_defs =
  MAXIMUM_STRUCTURED_FRAME_MESSAGE_BYTES_def MAXIMUM_STRUCTURED_FRAME_FIELDS_def
  MAXIMUM_STRUCTURED_FRAME_FIELD_BYTES_def MAXIMUM_HANDSHAKE_FEATURES_def
  MAXIMUM_HANDSHAKE_FEATURE_LENGTH_def NIX_STORE_HASH_LENGTH_def MAXIMUM_QUERY_VALID_PATHS_def
  MAXIMUM_ADD_MULTIPLE_TO_STORE_OBJECTS_def MAXIMUM_ADD_MULTIPLE_TO_STORE_REFERENCES_def
  MAXIMUM_ADD_MULTIPLE_TO_STORE_SIGNATURES_def MAXIMUM_ADD_MULTIPLE_TO_STORE_HASH_BYTES_def
  MAXIMUM_ADD_MULTIPLE_TO_STORE_SIGNATURE_BYTES_def
  MAXIMUM_ADD_MULTIPLE_TO_STORE_CONTENT_ADDRESS_BYTES_def MAXIMUM_WORKER_STORE_PATH_BYTES_def
  MAXIMUM_BUILD_DERIVATION_OUTPUTS_def MAXIMUM_BUILD_DERIVATION_INPUT_SOURCES_def
  MAXIMUM_BUILD_DERIVATION_ARGUMENTS_def MAXIMUM_BUILD_DERIVATION_ENVIRONMENT_def
  MAXIMUM_BUILD_DERIVATION_OUTPUT_NAME_BYTES_def MAXIMUM_BUILD_DERIVATION_PLATFORM_BYTES_def
  MAXIMUM_BUILD_DERIVATION_BUILDER_BYTES_def MAXIMUM_BUILD_DERIVATION_ARGUMENT_BYTES_def
  MAXIMUM_BUILD_DERIVATION_ENVIRONMENT_KEY_BYTES_def
  MAXIMUM_BUILD_DERIVATION_ENVIRONMENT_VALUE_BYTES_def
  MAXIMUM_BUILD_DERIVATION_HASH_ALGORITHM_BYTES_def MAXIMUM_BUILD_DERIVATION_HASH_BYTES_def

section \<open>The budget\<close>

datatype protocol_error =
    CleanEof | Truncated | SizeLimit | UnsupportedOperation | VersionMismatch
  | StoreFailure | InternalFailure

record protocol_session_limits =
  maximum_retained_metadata_bytes :: nat
  incomplete_message_idle_timeout :: nat

definition default_session_limits :: protocol_session_limits where
  "default_session_limits =
     \<lparr>maximum_retained_metadata_bytes = 16 * 1024 * 1024, incomplete_message_idle_timeout = 30\<rparr>"

record budget =
  retained_bytes :: nat
  maximum_retained_bytes :: nat

definition new_budget :: "protocol_session_limits \<Rightarrow> budget" where
  "new_budget limits =
     \<lparr>retained_bytes = 0, maximum_retained_bytes = maximum_retained_metadata_bytes limits\<rparr>"

text \<open>A charge is the number of bytes it gives back when it is dropped.\<close>

type_synonym charge = nat

definition charge_target :: "nat \<Rightarrow> nat \<Rightarrow> nat \<Rightarrow> nat option" where
  "charge_target maximum seen n =
     (case checked_add seen n of
        Some updated \<Rightarrow> (if updated \<le> maximum then Some updated else None)
      | None \<Rightarrow> None)"

definition charge :: "nat \<Rightarrow> budget \<Rightarrow> protocol_error + (charge \<times> budget)" where
  "charge n b =
     (case charge_target (maximum_retained_bytes b) (retained_bytes b) n of
        Some updated \<Rightarrow> Inr (n, b\<lparr>retained_bytes := updated\<rparr>)
      | None \<Rightarrow> Inl SizeLimit)"

definition drop_charge :: "charge \<Rightarrow> budget \<Rightarrow> budget" where
  "drop_charge n b = b\<lparr>retained_bytes := wrapping_sub (retained_bytes b) n\<rparr>"

definition charges :: "budget \<Rightarrow> nat \<Rightarrow> budget \<Rightarrow> bool" where
  "charges b n b' \<longleftrightarrow>
     retained_bytes b + n \<le> maximum_retained_bytes b \<and> retained_bytes b + n < usize_limit \<and>
     b' = b\<lparr>retained_bytes := retained_bytes b + n\<rparr>"

definition drop_charges :: "charge list \<Rightarrow> budget \<Rightarrow> budget" where
  "drop_charges cs b = fold drop_charge cs b"

section \<open>Threads on one counter\<close>

text \<open>
  \<^verbatim>\<open>charge\<close> is a loop: load the counter, compute the target, exchange it if the counter still holds
  the value seen, otherwise look again at the value found. The exchange is the weak one, so it may
  also fail although the counter has not moved. A thread is either idle, or in the loop for a
  request with the value it saw. Successful charges are live until their holder drops them.
\<close>

datatype thread = Idle | Charging nat nat

record shared_budget =
  sb_counter :: nat
  sb_limit :: nat
  sb_threads :: "nat \<Rightarrow> thread"
  sb_live :: "nat multiset"

inductive budget_step :: "shared_budget \<Rightarrow> shared_budget \<Rightarrow> bool" where
  load: "sb_threads st t = Idle \<Longrightarrow> n < usize_limit \<Longrightarrow>
    budget_step st (st\<lparr>sb_threads := (sb_threads st)(t := Charging n (sb_counter st))\<rparr>)"
| refuse: "sb_threads st t = Charging n v \<Longrightarrow> charge_target (sb_limit st) v n = None \<Longrightarrow>
    budget_step st (st\<lparr>sb_threads := (sb_threads st)(t := Idle)\<rparr>)"
| exchange: "sb_threads st t = Charging n v \<Longrightarrow> charge_target (sb_limit st) v n = Some u \<Longrightarrow>
    sb_counter st = v \<Longrightarrow>
    budget_step st (st\<lparr>sb_counter := u, sb_threads := (sb_threads st)(t := Idle), sb_live := add_mset n (sb_live st)\<rparr>)"
| retry: "sb_threads st t = Charging n v \<Longrightarrow> charge_target (sb_limit st) v n = Some u \<Longrightarrow>
    budget_step st (st\<lparr>sb_threads := (sb_threads st)(t := Charging n (sb_counter st))\<rparr>)"
| drop_live: "n \<in># sb_live st \<Longrightarrow>
    budget_step st (st\<lparr>sb_counter := wrapping_sub (sb_counter st) n, sb_live := sb_live st - {#n#}\<rparr>)"

inductive_cases budget_stepE: "budget_step st st'"

definition initial_shared_budget :: "nat \<Rightarrow> shared_budget" where
  "initial_shared_budget m = \<lparr>sb_counter = 0, sb_limit = m, sb_threads = (\<lambda>_. Idle), sb_live = {#}\<rparr>"

definition budget_inv :: "shared_budget \<Rightarrow> bool" where
  "budget_inv st \<longleftrightarrow>
     sb_counter st = sum_mset (sb_live st) \<and> sb_counter st \<le> sb_limit st \<and> sb_counter st < usize_limit"

section \<open>Lemmas\<close>

lemma charge_target_eq_Some [simp]:
  "charge_target m v n = Some u \<longleftrightarrow> u = v + n \<and> v + n \<le> m \<and> v + n < usize_limit"
  by (auto simp: charge_target_def split: option.splits)

lemma charge_target_eq_None [simp]:
  "charge_target m v n = None \<longleftrightarrow> m < v + n \<or> usize_limit \<le> v + n"
  by (auto simp: charge_target_def split: option.splits)

lemma charge_Inr:
  "charge n b = Inr (c, b') \<longleftrightarrow>
     c = n \<and> retained_bytes b + n \<le> maximum_retained_bytes b \<and> retained_bytes b + n < usize_limit \<and>
     b' = b\<lparr>retained_bytes := retained_bytes b + n\<rparr>"
  by (auto simp: charge_def split: option.splits)

lemma drop_charges_eq:
  assumes "sum_list cs \<le> retained_bytes b" and "retained_bytes b < usize_limit"
  shows "drop_charges cs b = b\<lparr>retained_bytes := retained_bytes b - sum_list cs\<rparr>"
  using assms
proof (induction cs arbitrary: b)
  case (Cons c cs)
  have "drop_charge c b = b\<lparr>retained_bytes := retained_bytes b - c\<rparr>"
    using Cons.prems by (simp add: drop_charge_def wrapping_sub_eq)
  then show ?case using Cons.prems Cons.IH [of "drop_charge c b"]
    by (simp add: drop_charges_def)
qed (simp add: drop_charges_def)

text \<open>\<^verbatim>\<open>charges b n b'\<close>: charging \<^verbatim>\<open>n\<close> bytes in one or several steps leads from \<^verbatim>\<open>b\<close> to \<^verbatim>\<open>b'\<close>.\<close>

lemma charge_eq_charges: "charge n b = Inr (c, b') \<longleftrightarrow> c = n \<and> charges b n b'"
  by (auto simp: charge_Inr charges_def)

lemma charges_add: "charges b (m + n) b2 \<longleftrightarrow> (\<exists>b1. charges b m b1 \<and> charges b1 n b2)"
  by (auto simp: charges_def add.assoc)

lemma charges_drop:
  "charges b n b' \<Longrightarrow> sum_list cs = n \<Longrightarrow> drop_charges cs b' = b"
  by (auto simp: charges_def drop_charges_eq)

lemma drop_charge_after_charge:
  assumes "charge n b = Inr (c, b')"
  shows "drop_charge c b' = b"
  using assms by (auto simp: charge_Inr drop_charge_def wrapping_sub_eq)

lemma budget_step_inv: "budget_step st st' \<Longrightarrow> budget_inv st \<Longrightarrow> budget_inv st' \<and> sb_limit st' = sb_limit st"
proof (induction rule: budget_step.induct)
  case (drop_live n st)
  then have "n \<le> sb_counter st"
    by (auto simp: budget_inv_def dest: multi_member_split)
  then show ?case using drop_live
    by (auto simp: budget_inv_def wrapping_sub_eq sum_mset_diff)
qed (auto simp: budget_inv_def)

text \<open>
  C8: Whatever the interleaving of the threads that charge and drop, the counter of a session
  budget is the sum of the live charges and never exceeds the configured maximum.
\<close>

theorem shared_budget_bounded:
  assumes "budget_step\<^sup>*\<^sup>* (initial_shared_budget m) st"
  shows "sb_counter st = sum_mset (sb_live st) \<and> sb_counter st \<le> m"
proof -
  have "budget_inv st \<and> sb_limit st = m"
    using assms
  proof (induction rule: rtranclp_induct)
    case base
    then show ?case by (simp add: budget_inv_def initial_shared_budget_def usize_limit_def)
  next
    case (step y z)
    then show ?case using budget_step_inv by fastforce
  qed
  then show ?thesis by (simp add: budget_inv_def)
qed

lemma budget_trace:
  "budget_step\<^sup>*\<^sup>* (initial_shared_budget 10)
     \<lparr>sb_counter = 9, sb_limit = 10, sb_threads = (\<lambda>_. Idle), sb_live = {#5, 4#}\<rparr>"
proof -
  define s0 where "s0 = initial_shared_budget 10"
  define s1 where "s1 = s0\<lparr>sb_threads := (\<lambda>_. Idle)(0 := Charging 4 0)\<rparr>"
  define s2 where "s2 = s1\<lparr>sb_threads := (\<lambda>_. Idle)(0 := Charging 4 0, 1 := Charging 5 0)\<rparr>"
  define s3 where "s3 = s2\<lparr>sb_counter := 4, sb_threads := (\<lambda>_. Idle)(1 := Charging 5 0), sb_live := {#4#}\<rparr>"
  define s4 where "s4 = s3\<lparr>sb_threads := (\<lambda>_. Idle)(1 := Charging 5 4)\<rparr>"
  define s5 where "s5 = s4\<lparr>sb_counter := 9, sb_threads := (\<lambda>_. Idle), sb_live := {#5, 4#}\<rparr>"
  note defs = s0_def s1_def s2_def s3_def s4_def s5_def initial_shared_budget_def
  have t3: "(sb_threads s2)(0 := Idle) = sb_threads s3"
    by (simp add: defs fun_eq_iff)
  have t5: "(sb_threads s4)(1 := Idle) = sb_threads s5"
    by (simp add: defs fun_eq_iff)
  have "budget_step s0 s1"
    using budget_step.load [of s0 0 4] by (simp add: defs usize_limit_def)
  moreover have "budget_step s1 s2"
    using budget_step.load [of s1 1 5] by (simp add: defs usize_limit_def)
  moreover have "budget_step s2 s3"
    using budget_step.exchange [of s2 0 4 0 4, unfolded t3] by (simp add: defs usize_limit_def)
  moreover have "budget_step s3 s4"
    using budget_step.retry [of s3 1 5 0 5] by (simp add: defs usize_limit_def)
  moreover have "budget_step s4 s5"
    using budget_step.exchange [of s4 1 5 4 9, unfolded t5] by (simp add: defs usize_limit_def)
  ultimately have "budget_step\<^sup>*\<^sup>* s0 s5"
    by (meson converse_rtranclp_into_rtranclp rtranclp.rtrancl_refl)
  then show ?thesis by (simp add: defs)
qed

theorem shared_budget_bounded_witness:
  "budget_step\<^sup>*\<^sup>* (initial_shared_budget 10)
     \<lparr>sb_counter = 9, sb_limit = 10, sb_threads = (\<lambda>_. Idle), sb_live = {#5, 4#}\<rparr> \<and>
   (9 :: nat) = sum_mset {#5, 4#} \<and> (9 :: nat) \<le> 10"
  using budget_trace shared_budget_bounded [OF budget_trace] by simp

end
