(* ===== verification/Wire.thy ===== *)
theory Wire
  imports Budget
begin

text \<open>
  The primitives of the worker protocol: byte sources, integers, padded byte strings, string
  lists, versions and operation codes (\<^verbatim>\<open>nix-worker-protocol/src/lib.rs\<close>, \<^verbatim>\<open>protocol.rs\<close> and the
  readers over a slice in \<^verbatim>\<open>fixture.rs\<close>). The interface \<^verbatim>\<open>byte_source\<close> is what a decoder needs of
  its input, and \<^verbatim>\<open>wire_codec\<close> is the contract between a decoder and the encoding it accepts.
\<close>

unbundle bit_operations_syntax

section \<open>Byte sources\<close>

text \<open>The trait \<^verbatim>\<open>WorkerInput\<close> (with \<^verbatim>\<open>Read::read_exact\<close>) as a table of operations.\<close>

record 's worker_input =
  read_exact :: "nat \<Rightarrow> (io_error, bytes, 's) run"
  complete_message :: "'s \<Rightarrow> 's"
  has_unread_message_data :: "'s \<Rightarrow> bool"

definition end_of_input :: io_error where
  "end_of_input = IoError UnexpectedEof ''failed to fill whole buffer''"

definition slice_read_exact :: "nat \<Rightarrow> (io_error, bytes, bytes) run" where
  "slice_read_exact n s = (if n \<le> length s then Inr (take n s, drop n s) else Inl end_of_input)"

definition slice_input :: "bytes worker_input" where
  "slice_input = \<lparr>read_exact = slice_read_exact, complete_message = id,
                  has_unread_message_data = (\<lambda>s. s \<noteq> [])\<rparr>"

text \<open>
  \<^verbatim>\<open>SessionInput\<close>: the bytes the peer sends, and whether a message has begun. While one has, the
  read timeout is armed; a peer that stalls is outside this model, which describes the bytes that
  do arrive.
\<close>

record session_input =
  stream :: bytes
  message_in_progress :: bool

definition session_read_exact :: "nat \<Rightarrow> (io_error, bytes, session_input) run" where
  "session_read_exact n s =
     (if n \<le> length (stream s)
      then Inr (take n (stream s),
                s\<lparr>stream := drop n (stream s), message_in_progress := message_in_progress s \<or> 0 < n\<rparr>)
      else Inl end_of_input)"

definition session_complete_message :: "session_input \<Rightarrow> session_input" where
  "session_complete_message s = s\<lparr>message_in_progress := False\<rparr>"

definition session_worker_input :: "session_input worker_input" where
  "session_worker_input = \<lparr>read_exact = session_read_exact,
     complete_message = session_complete_message, has_unread_message_data = (\<lambda>_. False)\<rparr>"

section \<open>Integers and byte strings\<close>

definition enc_integer :: "u64 \<Rightarrow> bytes" where
  "enc_integer w = le_bytes 8 (unat w)"

definition padding_length :: "nat \<Rightarrow> nat" where
  "padding_length n = (8 - n mod 8) mod 8"

definition framed_length :: "nat \<Rightarrow> nat" where
  "framed_length n = n + padding_length n"

definition enc_byte_string :: "bytes \<Rightarrow> bytes" where
  "enc_byte_string bs = enc_integer (of_nat (length bs)) @ bs @ replicate (padding_length (length bs)) 0"

definition read_worker_integer_from :: "'s worker_input \<Rightarrow> (io_error, u64, 's) run" where
  "read_worker_integer_from R = and_then (read_exact R 8) (\<lambda>bs. ok (of_nat (le_nat bs)))"

definition charge_run :: "nat \<Rightarrow> io_error \<Rightarrow> (io_error, charge, 's \<times> budget) run" where
  "charge_run n e st =
     (case charge n (snd st) of Inl _ \<Rightarrow> Inl e | Inr (c, b) \<Rightarrow> Inr (c, (fst st, b)))"

text \<open>
  A count or a length: \<^verbatim>\<open>usize::try_from\<close> of a wire integer. \<^verbatim>\<open>usize\<close> has 64 bits on the supported
  targets, so the conversion never fails.
\<close>

definition read_usize_from :: "'s worker_input \<Rightarrow> (io_error, nat, 's) run" where
  "read_usize_from R = and_then (read_worker_integer_from R) (\<lambda>w. ok (unat w))"

definition read_worker_byte_string_with_charge_from ::
  "'s worker_input \<Rightarrow> nat \<Rightarrow> (io_error, bytes \<times> charge, 's \<times> budget) run" where
  "read_worker_byte_string_with_charge_from R maximum_length =
     and_then (on_fst (read_usize_from R)) (\<lambda>len.
       and_then (ensure (len \<le> maximum_length) (invalid_data ''worker string exceeds limit'')) (\<lambda>_.
       case checked_add len (padding_length len) of
         None \<Rightarrow> fail_with (invalid_data ''worker string exceeds limit'')
       | Some framed_len \<Rightarrow>
           and_then (charge_run framed_len (invalid_data ''worker metadata exceeds session limit'')) (\<lambda>c.
           and_then (on_fst (read_exact R framed_len)) (\<lambda>framed.
           and_then (ensure (\<forall>b\<in>set (drop len framed). b = 0)
                       (invalid_data ''worker string padding is not zero'')) (\<lambda>_.
           ok (take len framed, c))))))"

definition write_worker_integer_to :: "u64 \<Rightarrow> unit writer" where
  "write_worker_integer_to w = emit (le_bytes 8 (unat w))"

definition write_worker_byte_string_to :: "bytes \<Rightarrow> unit writer" where
  "write_worker_byte_string_to v =
     w_then (write_worker_integer_to (of_nat (length v))) (\<lambda>_.
     w_then (emit v) (\<lambda>_. emit (take ((8 - length v mod 8) mod 8) (replicate 7 0))))"

definition write_worker_strings_to :: "bytes list \<Rightarrow> unit writer" where
  "write_worker_strings_to vs =
     w_then (write_worker_integer_to (of_nat (length vs))) (\<lambda>_. w_each write_worker_byte_string_to vs)"

definition write_worker_integer :: "bytes \<Rightarrow> u64 \<Rightarrow> bytes" where
  "write_worker_integer out w = out @ le_bytes 8 (unat w)"

definition write_worker_byte_string :: "bytes \<Rightarrow> bytes \<Rightarrow> bytes" where
  "write_worker_byte_string out v =
     write_worker_integer out (of_nat (length v)) @ v @ replicate ((8 - length v mod 8) mod 8) 0"

text \<open>The readers over a slice, which tell a clean end from a truncated integer.\<close>

definition read_worker_integer :: "(protocol_error, u64, bytes) run" where
  "read_worker_integer s =
     (if s = [] then Inl CleanEof
      else if length s < 8 then Inl Truncated
      else Inr (of_nat (le_nat (take 8 s)), drop 8 s))"

definition read_worker_byte_string :: "nat \<Rightarrow> (protocol_error, bytes, bytes) run" where
  "read_worker_byte_string maximum_length s =
     (case read_worker_integer s of
        Inl e \<Rightarrow> Inl e
      | Inr (w, s1) \<Rightarrow>
          let len = unat w in
          if maximum_length < len then Inl SizeLimit
          else (case checked_add len (padding_length len) of
                  None \<Rightarrow> Inl SizeLimit
                | Some framed_len \<Rightarrow>
                    if length s1 < framed_len then Inl Truncated
                    else if \<exists>b\<in>set (drop len (take framed_len s1)). b \<noteq> 0 then Inl InternalFailure
                    else Inr (take len (take framed_len s1), drop framed_len s1)))"

text \<open>
  Well-formed UTF-8, the test of \<^verbatim>\<open>str::from_utf8\<close>: no overlong forms, no surrogates, nothing
  above U+10FFFF. A Rust \<^verbatim>\<open>String\<close> is represented by its bytes.
\<close>

definition utf8_tail :: "byte \<Rightarrow> bool" where
  "utf8_tail b \<longleftrightarrow> 0x80 \<le> b \<and> b \<le> 0xBF"

fun utf8_valid :: "bytes \<Rightarrow> bool" where
  "utf8_valid [] = True"
| "utf8_valid (a # s) =
    (if a < 0x80 then utf8_valid s
     else if 0xC2 \<le> a \<and> a \<le> 0xDF then
       (case s of b # r \<Rightarrow> utf8_tail b \<and> utf8_valid r | _ \<Rightarrow> False)
     else if 0xE0 \<le> a \<and> a \<le> 0xEF then
       (case s of b # c # r \<Rightarrow>
          utf8_tail b \<and> (a = 0xE0 \<longrightarrow> 0xA0 \<le> b) \<and> (a = 0xED \<longrightarrow> b \<le> 0x9F) \<and>
          utf8_tail c \<and> utf8_valid r | _ \<Rightarrow> False)
     else if 0xF0 \<le> a \<and> a \<le> 0xF4 then
       (case s of b # c # d # r \<Rightarrow>
          utf8_tail b \<and> (a = 0xF0 \<longrightarrow> 0x90 \<le> b) \<and> (a = 0xF4 \<longrightarrow> b \<le> 0x8F) \<and>
          utf8_tail c \<and> utf8_tail d \<and> utf8_valid r | _ \<Rightarrow> False)
     else False)"

section \<open>String lists\<close>

text \<open>\<^verbatim>\<open>size_of\<close> of a \<^verbatim>\<open>Vec<u8>\<close> or \<^verbatim>\<open>String\<close>: pointer, capacity and length.\<close>

definition size_of_vec :: nat where
  "size_of_vec = 24"

record decoded_worker_strings =
  string_values :: "bytes list"
  strings_collection_charge :: charge
  strings_value_charges :: "charge list"

definition read_worker_feature :: "'s worker_input \<Rightarrow> (io_error, bytes \<times> charge, 's \<times> budget) run" where
  "read_worker_feature R =
     and_then (read_worker_byte_string_with_charge_from R MAXIMUM_HANDSHAKE_FEATURE_LENGTH) (\<lambda>(feature, c).
     and_then (ensure (utf8_valid feature) (invalid_data ''worker feature is not UTF-8'')) (\<lambda>_.
     ok (feature, c)))"

definition read_worker_strings_from ::
  "'s worker_input \<Rightarrow> (io_error, decoded_worker_strings, 's \<times> budget) run" where
  "read_worker_strings_from R =
     and_then (on_fst (read_usize_from R)) (\<lambda>count.
       and_then (ensure (count \<le> MAXIMUM_HANDSHAKE_FEATURES) (invalid_data ''too many worker features'')) (\<lambda>_.
       case checked_mul count size_of_vec of
         None \<Rightarrow> fail_with (invalid_data ''worker metadata exceeds session limit'')
       | Some collection_capacity \<Rightarrow>
           and_then (charge_run collection_capacity
                       (invalid_data ''worker metadata exceeds session limit'')) (\<lambda>collection_charge.
           and_then (repeat_run count (read_worker_feature R)) (\<lambda>features.
           ok \<lparr>string_values = map fst features,
               strings_collection_charge = collection_charge,
               strings_value_charges = map snd features\<rparr>))))"

definition drop_decoded_worker_strings :: "decoded_worker_strings \<Rightarrow> budget \<Rightarrow> budget" where
  "drop_decoded_worker_strings d =
     drop_charges (strings_collection_charge d # strings_value_charges d)"

definition discard_worker_strings :: "'s worker_input \<Rightarrow> (io_error, unit, 's \<times> budget) run" where
  "discard_worker_strings R st =
     (case read_worker_strings_from R st of
        Inl e \<Rightarrow> Inl e
      | Inr (d, (s, b)) \<Rightarrow> Inr ((), (s, drop_decoded_worker_strings d b)))"

section \<open>Versions and operations\<close>

datatype worker_version = WorkerVersion (version_major: byte) (version_minor: byte)

instantiation worker_version :: linorder
begin

definition less_eq_worker_version :: "worker_version \<Rightarrow> worker_version \<Rightarrow> bool" where
  "less_eq_worker_version v w \<longleftrightarrow> version_major v < version_major w \<or>
     (version_major v = version_major w \<and> version_minor v \<le> version_minor w)"

definition less_worker_version :: "worker_version \<Rightarrow> worker_version \<Rightarrow> bool" where
  "less_worker_version v w \<longleftrightarrow> version_major v < version_major w \<or>
     (version_major v = version_major w \<and> version_minor v < version_minor w)"

instance
  by standard (auto simp: less_eq_worker_version_def less_worker_version_def intro: worker_version.expand)

end

definition to_wire :: "worker_version \<Rightarrow> u64" where
  "to_wire v = (push_bit 8 (ucast (version_major v))) OR ucast (version_minor v)"

definition from_wire :: "u64 \<Rightarrow> worker_version" where
  "from_wire value = WorkerVersion (ucast (drop_bit 8 (value AND 0xff00))) (ucast (value AND 0x00ff))"

definition CLIENT_WORKER_MAGIC :: u64 where
  "CLIENT_WORKER_MAGIC = 0x6e697863"

definition SERVER_WORKER_MAGIC :: u64 where
  "SERVER_WORKER_MAGIC = 0x6478696f"

definition MINIMUM_WORKER_VERSION :: worker_version where
  "MINIMUM_WORKER_VERSION = WorkerVersion 1 35"

definition LATEST_WORKER_VERSION :: worker_version where
  "LATEST_WORKER_VERSION = WorkerVersion 1 38"

definition FEATURE_NEGOTIATION_VERSION :: worker_version where
  "FEATURE_NEGOTIATION_VERSION = WorkerVersion 1 38"

definition STDERR_NEXT :: u64 where
  "STDERR_NEXT = 0x6f6c6d67"

definition STDERR_LAST :: u64 where
  "STDERR_LAST = 0x616c7473"

definition STDERR_ERROR :: u64 where
  "STDERR_ERROR = 0x63787470"

definition STDERR_START_ACTIVITY :: u64 where
  "STDERR_START_ACTIVITY = 0x53545254"

definition STDERR_STOP_ACTIVITY :: u64 where
  "STDERR_STOP_ACTIVITY = 0x53544f50"

definition STDERR_RESULT :: u64 where
  "STDERR_RESULT = 0x52534c54"

datatype worker_operation =
    IsValidPath | QueryReferrers | AddToStore | AddTextToStore
  | BuildPaths | EnsurePath | AddTempRoot | AddIndirectRoot
  | SyncWithGc | FindRoots | QueryDeriver | SetOptions
  | CollectGarbage | QuerySubstitutablePathInfo | QueryDerivationOutputs | QueryAllValidPaths
  | QueryPathInfo | QueryDerivationOutputNames | QueryPathFromHashPart | QuerySubstitutablePathInfos
  | QueryValidPaths | QuerySubstitutablePaths | QueryValidDerivers | OptimiseStore
  | VerifyStore | BuildDerivation | AddSignatures | NarFromPath
  | AddToStoreNar | QueryMissing | QueryDerivationOutputMap | RegisterDrvOutput
  | QueryRealisation | AddMultipleToStore | AddBuildLog | BuildPathsWithResults
  | AddPermRoot

primrec operation_code :: "worker_operation \<Rightarrow> u64" where
  "operation_code IsValidPath = 1"
| "operation_code QueryReferrers = 6"
| "operation_code AddToStore = 7"
| "operation_code AddTextToStore = 8"
| "operation_code BuildPaths = 9"
| "operation_code EnsurePath = 10"
| "operation_code AddTempRoot = 11"
| "operation_code AddIndirectRoot = 12"
| "operation_code SyncWithGc = 13"
| "operation_code FindRoots = 14"
| "operation_code QueryDeriver = 18"
| "operation_code SetOptions = 19"
| "operation_code CollectGarbage = 20"
| "operation_code QuerySubstitutablePathInfo = 21"
| "operation_code QueryDerivationOutputs = 22"
| "operation_code QueryAllValidPaths = 23"
| "operation_code QueryPathInfo = 26"
| "operation_code QueryDerivationOutputNames = 28"
| "operation_code QueryPathFromHashPart = 29"
| "operation_code QuerySubstitutablePathInfos = 30"
| "operation_code QueryValidPaths = 31"
| "operation_code QuerySubstitutablePaths = 32"
| "operation_code QueryValidDerivers = 33"
| "operation_code OptimiseStore = 34"
| "operation_code VerifyStore = 35"
| "operation_code BuildDerivation = 36"
| "operation_code AddSignatures = 37"
| "operation_code NarFromPath = 38"
| "operation_code AddToStoreNar = 39"
| "operation_code QueryMissing = 40"
| "operation_code QueryDerivationOutputMap = 41"
| "operation_code RegisterDrvOutput = 42"
| "operation_code QueryRealisation = 43"
| "operation_code AddMultipleToStore = 44"
| "operation_code AddBuildLog = 45"
| "operation_code BuildPathsWithResults = 46"
| "operation_code AddPermRoot = 47"

definition worker_operation_from_code :: "u64 \<Rightarrow> protocol_error + worker_operation" where
  "worker_operation_from_code code =
     (if code = 1 then Inr IsValidPath
      else if code = 6 then Inr QueryReferrers
      else if code = 7 then Inr AddToStore
      else if code = 8 then Inr AddTextToStore
      else if code = 9 then Inr BuildPaths
      else if code = 10 then Inr EnsurePath
      else if code = 11 then Inr AddTempRoot
      else if code = 12 then Inr AddIndirectRoot
      else if code = 13 then Inr SyncWithGc
      else if code = 14 then Inr FindRoots
      else if code = 18 then Inr QueryDeriver
      else if code = 19 then Inr SetOptions
      else if code = 20 then Inr CollectGarbage
      else if code = 21 then Inr QuerySubstitutablePathInfo
      else if code = 22 then Inr QueryDerivationOutputs
      else if code = 23 then Inr QueryAllValidPaths
      else if code = 26 then Inr QueryPathInfo
      else if code = 28 then Inr QueryDerivationOutputNames
      else if code = 29 then Inr QueryPathFromHashPart
      else if code = 30 then Inr QuerySubstitutablePathInfos
      else if code = 31 then Inr QueryValidPaths
      else if code = 32 then Inr QuerySubstitutablePaths
      else if code = 33 then Inr QueryValidDerivers
      else if code = 34 then Inr OptimiseStore
      else if code = 35 then Inr VerifyStore
      else if code = 36 then Inr BuildDerivation
      else if code = 37 then Inr AddSignatures
      else if code = 38 then Inr NarFromPath
      else if code = 39 then Inr AddToStoreNar
      else if code = 40 then Inr QueryMissing
      else if code = 41 then Inr QueryDerivationOutputMap
      else if code = 42 then Inr RegisterDrvOutput
      else if code = 43 then Inr QueryRealisation
      else if code = 44 then Inr AddMultipleToStore
      else if code = 45 then Inr AddBuildLog
      else if code = 46 then Inr BuildPathsWithResults
      else if code = 47 then Inr AddPermRoot
      else Inl UnsupportedOperation)"

definition read_worker_operation :: "(protocol_error, worker_operation, bytes) run" where
  "read_worker_operation = and_then read_worker_integer (\<lambda>code. lift_result (worker_operation_from_code code))"

definition read_worker_operation_from :: "'s worker_input \<Rightarrow> (io_error, worker_operation, 's) run" where
  "read_worker_operation_from R =
     and_then (read_worker_integer_from R) (\<lambda>code.
     lift_result (result_map_err (\<lambda>_. invalid_data ''unknown worker operation'')
       (worker_operation_from_code code)))"

section \<open>The calculus of decoders\<close>

text \<open>
  A decoder runs on an input and a budget. \<^verbatim>\<open>consumes reads st bs n st'\<close>: from \<^verbatim>\<open>st\<close> the input
  delivered exactly \<^verbatim>\<open>bs\<close> and \<^verbatim>\<open>n\<close> bytes were charged. \<^verbatim>\<open>decodes reads m P\<close>: started on a
  budget within its limit, \<^verbatim>\<open>m\<close> returns \<^verbatim>\<open>x\<close> exactly when it consumed bytes and budget that
  \<^verbatim>\<open>P\<close> relates to \<^verbatim>\<open>x\<close>. The rules follow the combinators, so the relation of a decoder is
  computed from its body and no state is mentioned in a proof about a format.
\<close>

definition budget_ok :: "budget \<Rightarrow> bool" where
  "budget_ok b \<longleftrightarrow> retained_bytes b \<le> maximum_retained_bytes b \<and> maximum_retained_bytes b < usize_limit"

definition consumes ::
  "('s \<Rightarrow> bytes \<Rightarrow> 's \<Rightarrow> bool) \<Rightarrow> 's \<times> budget \<Rightarrow> bytes \<Rightarrow> nat \<Rightarrow> 's \<times> budget \<Rightarrow> bool" where
  "consumes reads st bs n st' \<longleftrightarrow> reads (fst st) bs (fst st') \<and> charges (snd st) n (snd st')"

definition decodes ::
  "('s \<Rightarrow> bytes \<Rightarrow> 's \<Rightarrow> bool) \<Rightarrow> ('e, 'a, 's \<times> budget) run \<Rightarrow> ('a \<Rightarrow> bytes \<Rightarrow> nat \<Rightarrow> bool) \<Rightarrow> bool" where
  "decodes reads m P \<longleftrightarrow>
     (\<forall>st x st'. budget_ok (snd st) \<longrightarrow>
        (m st = Inr (x, st') \<longleftrightarrow> (\<exists>bs n. P x bs n \<and> consumes reads st bs n st')))"

named_theorems decodes_rule \<open>rules of the calculus\<close>

lemma charges_0: "budget_ok b \<Longrightarrow> charges b 0 b' \<longleftrightarrow> b' = b"
  by (auto simp: charges_def budget_ok_def)

lemma charges_budget_ok: "charges b n b' \<Longrightarrow> budget_ok b \<Longrightarrow> budget_ok b'"
  by (auto simp: charges_def budget_ok_def)

lemma new_budget_ok: "maximum_retained_metadata_bytes l < usize_limit \<Longrightarrow> budget_ok (new_budget l)"
  by (simp add: budget_ok_def new_budget_def)

lemma decodes_cong:
  assumes "decodes reads m P" and "\<And>x bs n. P x bs n \<longleftrightarrow> Q x bs n"
  shows "decodes reads m Q"
  using assms by (simp add: decodes_def)

lemma decodesD:
  "decodes reads m P \<Longrightarrow> budget_ok (snd st) \<Longrightarrow>
   m st = Inr (x, st') \<longleftrightarrow> (\<exists>bs n. P x bs n \<and> consumes reads st bs n st')"
  unfolding decodes_def by blast

lemma decodes_fail [decodes_rule]: "decodes reads (fail_with e) (\<lambda>x bs n. False)"
  by (simp add: decodes_def fail_with_def)

lemma decodes_map_err [decodes_rule]: "decodes reads m P \<Longrightarrow> decodes reads (map_err f m) P"
  by (simp add: decodes_def map_err_Inr)

lemma decodes_case_prod [decodes_rule]:
  "(\<And>a b. decodes reads (f a b) (P a b)) \<Longrightarrow> decodes reads (case p of (a, b) \<Rightarrow> f a b) (case p of (a, b) \<Rightarrow> P a b)"
  by (simp split: prod.split)

lemma decodes_if [decodes_rule]:
  "decodes reads m P \<Longrightarrow> decodes reads m' P' \<Longrightarrow>
   decodes reads (if c then m else m') (\<lambda>x bs n. if c then P x bs n else P' x bs n)"
  by simp

lemma decodes_option:
  "decodes reads m P \<Longrightarrow> (\<And>y. decodes reads (k y) (Q y)) \<Longrightarrow>
   decodes reads (case c of None \<Rightarrow> m | Some y \<Rightarrow> k y)
     (\<lambda>x bs n. case c of None \<Rightarrow> P x bs n | Some y \<Rightarrow> Q y x bs n)"
  by (simp split: option.split)

lemma decodes_option_fail [decodes_rule]:
  assumes "\<And>y. decodes reads (k y) (Q y)"
  shows "decodes reads (case c of None \<Rightarrow> fail_with e | Some y \<Rightarrow> k y)
     (\<lambda>x bs n. \<exists>y. c = Some y \<and> Q y x bs n)"
  by (rule decodes_cong [OF decodes_option [OF decodes_fail assms]]) (simp split: option.split)

lemma on_fst_and_then: "on_fst (and_then m k) = and_then (on_fst m) (\<lambda>x. on_fst (k x))"
  by (auto simp: on_fst_def and_then_def fun_eq_iff split: sum.splits)

lemma on_fst_ok: "on_fst (ok x) = ok x"
  by (auto simp: on_fst_def ok_def fun_eq_iff)

lemma on_fst_ensure: "on_fst (ensure c e) = ensure c e"
  by (auto simp: on_fst_def ensure_def fun_eq_iff)

lemma on_fst_fail: "on_fst (fail_with e) = fail_with e"
  by (auto simp: on_fst_def fail_with_def fun_eq_iff)

lemma on_fst_lift: "on_fst (lift_result r) = lift_result r"
  by (auto simp: on_fst_def lift_result_def fun_eq_iff split: sum.splits)

lemma on_fst_map_err: "on_fst (map_err f m) = map_err f (on_fst m)"
  by (auto simp: on_fst_def map_err_def fun_eq_iff split: sum.splits)

lemmas on_fst_simps = on_fst_and_then on_fst_ok on_fst_ensure on_fst_fail on_fst_lift on_fst_map_err

text \<open>What a decoder needs of its input.\<close>

locale byte_source =
  fixes R :: "'s worker_input" and reads :: "'s \<Rightarrow> bytes \<Rightarrow> 's \<Rightarrow> bool"
  assumes read_exact_iff: "read_exact R n s = Inr (bs, s') \<longleftrightarrow> length bs = n \<and> reads s bs s'"
    and reads_Nil: "reads s [] s' \<longleftrightarrow> s' = s"
    and reads_append: "reads s (a @ b) s2 \<longleftrightarrow> (\<exists>s1. reads s a s1 \<and> reads s1 b s2)"
begin

lemma consumes_Nil: "budget_ok (snd st) \<Longrightarrow> consumes reads st [] 0 st' \<longleftrightarrow> st' = st"
  by (auto simp: consumes_def reads_Nil charges_0 prod_eq_iff)

lemma consumes_append:
  "consumes reads st (a @ b) (m + n) st2 \<longleftrightarrow>
     (\<exists>st1. consumes reads st a m st1 \<and> consumes reads st1 b n st2)"
  by (auto simp: consumes_def reads_append charges_add)

lemma consumes_ok: "consumes reads st bs n st' \<Longrightarrow> budget_ok (snd st) \<Longrightarrow> budget_ok (snd st')"
  by (auto simp: consumes_def dest: charges_budget_ok)

lemma reads_unique:
  assumes "reads s a s1" and "reads s b s2" and "length a = length b"
  shows "a = b \<and> s1 = s2"
proof -
  have "read_exact R (length b) s = Inr (a, s1)" "read_exact R (length b) s = Inr (b, s2)"
    using assms by (simp_all add: read_exact_iff)
  then show ?thesis by simp
qed

lemma decodes_ok [decodes_rule]: "decodes reads (ok y) (\<lambda>x bs n. x = y \<and> bs = [] \<and> n = 0)"
  by (auto simp: decodes_def ok_Inr consumes_Nil)

lemma decodes_ensure [decodes_rule]: "decodes reads (ensure c e) (\<lambda>x bs n. c \<and> bs = [] \<and> n = 0)"
  by (auto simp: decodes_def ensure_Inr consumes_Nil)

lemma decodes_lift [decodes_rule]: "decodes reads (lift_result r) (\<lambda>x bs n. r = Inr x \<and> bs = [] \<and> n = 0)"
  by (auto simp: decodes_def lift_result_Inr consumes_Nil)

lemma decodes_and_then [decodes_rule]:
  assumes "decodes reads m P" and "\<And>x. decodes reads (k x) (Q x)"
  shows "decodes reads (and_then m k)
    (\<lambda>y bs n. \<exists>x b1 n1 b2 n2. P x b1 n1 \<and> Q x y b2 n2 \<and> bs = b1 @ b2 \<and> n = n1 + n2)"
  unfolding decodes_def
proof (intro allI impI)
  fix st :: "'s \<times> budget" and y st' assume st: "budget_ok (snd st)"
  have "and_then m k st = Inr (y, st') \<longleftrightarrow>
    (\<exists>x st1. (\<exists>b1 n1. P x b1 n1 \<and> consumes reads st b1 n1 st1) \<and> k x st1 = Inr (y, st'))"
    using st assms(1) by (simp add: and_then_Inr decodesD)
  also have "\<dots> \<longleftrightarrow> (\<exists>x st1 b1 n1 b2 n2. P x b1 n1 \<and> Q x y b2 n2 \<and>
      consumes reads st b1 n1 st1 \<and> consumes reads st1 b2 n2 st')"
    using st decodesD [OF assms(2)] consumes_ok by blast
  also have "\<dots> \<longleftrightarrow> (\<exists>bs n. (\<exists>x b1 n1 b2 n2. P x b1 n1 \<and> Q x y b2 n2 \<and> bs = b1 @ b2 \<and> n = n1 + n2) \<and>
      consumes reads st bs n st')"
    using consumes_append by fast
  finally show "and_then m k st = Inr (y, st') \<longleftrightarrow>
    (\<exists>bs n. (\<exists>x b1 n1 b2 n2. P x b1 n1 \<and> Q x y b2 n2 \<and> bs = b1 @ b2 \<and> n = n1 + n2) \<and>
      consumes reads st bs n st')" .
qed

lemma decodes_read_exact [decodes_rule]:
  "decodes reads (on_fst (read_exact R k)) (\<lambda>x bs n. length x = k \<and> bs = x \<and> n = 0)"
  by (auto simp: decodes_def on_fst_Inr read_exact_iff consumes_def charges_0)

lemma decodes_charge [decodes_rule]:
  "decodes reads (charge_run k e) (\<lambda>x bs n. x = k \<and> bs = [] \<and> n = k)"
proof -
  have "charge_run k e st = Inr (x, st') \<longleftrightarrow> x = k \<and> fst st' = fst st \<and> charges (snd st) k (snd st')"
    for st :: "'s \<times> budget" and x st'
    by (cases st; cases st') (auto simp: charge_run_def charge_def charges_def split: option.splits)
  then show ?thesis by (auto simp: decodes_def consumes_def reads_Nil)
qed

lemma decodes_repeat:
  assumes "decodes reads m (\<lambda>x bs n. valid x \<and> bs = enc x \<and> n = cost x)"
  shows "decodes reads (repeat_run k m) (\<lambda>xs bs n. length xs = k \<and> (\<forall>x\<in>set xs. valid x) \<and>
    bs = concat (map enc xs) \<and> n = sum_list (map cost xs))"
proof (induction k)
  case 0
  show ?case unfolding repeat_run.simps by (rule decodes_cong [OF decodes_ok]) auto
next
  case (Suc k)
  show ?case unfolding repeat_run.simps
    by (rule decodes_cong [OF decodes_and_then [OF assms decodes_and_then [OF Suc decodes_ok]]])
       (auto simp: length_Suc_conv)
qed

end

lemma enc_integer_of_le_nat: "length bs = 8 \<Longrightarrow> enc_integer (of_nat (le_nat bs)) = bs"
proof -
  assume l: "length bs = 8"
  have "le_nat bs < 2 ^ 64" using le_nat_bound [of bs] l by simp
  then have "unat (of_nat (le_nat bs) :: u64) = le_nat bs" by (simp add: unat_of_nat)
  then show ?thesis using le_bytes_le_nat [of bs] l by (simp add: enc_integer_def)
qed

lemma of_le_nat_enc_integer: "of_nat (le_nat (enc_integer w)) = w"
proof -
  have "unat w < 2 ^ 64" using unsigned_less [of w] by simp
  then show ?thesis by (simp add: enc_integer_def le_nat_le_bytes)
qed

lemma length_enc_integer [simp]: "length (enc_integer w) = 8"
  by (simp add: enc_integer_def)

lemma integer_bytes_iff:
  "length bs = 8 \<and> w = of_nat (le_nat bs) \<longleftrightarrow> bs = enc_integer w"
  by (auto simp: enc_integer_of_le_nat of_le_nat_enc_integer)

lemma enc_integer_inj [simp]: "enc_integer v = enc_integer w \<longleftrightarrow> v = w"
  by (metis of_le_nat_enc_integer)

lemma padding_length_less: "padding_length n < 8"
  by (simp add: padding_length_def)

lemma framed_split:
  "length framed = framed_length n \<and> (\<forall>b\<in>set (drop n framed). b = 0) \<and> x = take n framed \<longleftrightarrow>
   length x = n \<and> framed = x @ replicate (padding_length n) 0"
proof -
  have "drop n framed = replicate (padding_length n) 0"
    if "length framed = framed_length n" "\<forall>b\<in>set (drop n framed). b = 0"
    using that by (intro replicate_eqI) (auto simp: framed_length_def)
  then show ?thesis
    by (auto simp: framed_length_def) (metis append_take_drop_id)
qed

text \<open>The length of a string as the integer it is sent as.\<close>

lemma unat_of_nat_u64: "n < usize_limit \<Longrightarrow> unat (of_nat n :: u64) = n"
  by (simp add: unat_of_nat usize_limit_def)

lemma unat_u64_less: "unat (w :: u64) < usize_limit"
  using unsigned_less [of w] by (simp add: usize_limit_def)

context byte_source
begin

lemma decodes_repeat_charged:
  assumes "decodes reads m
    (\<lambda>p bs n. (valid (fst p) \<and> snd p = cost (fst p)) \<and> bs = enc (fst p) \<and> n = cost (fst p))"
  shows "decodes reads (repeat_run k m) (\<lambda>ps bs n. \<exists>vs. length vs = k \<and> (\<forall>v\<in>set vs. valid v) \<and>
    ps = map (\<lambda>v. (v, cost v)) vs \<and> bs = concat (map enc vs) \<and> n = sum_list (map cost vs))"
proof (rule decodes_cong [OF decodes_repeat [OF assms]], goal_cases)
  case (1 ps bs n)
  have "(\<forall>p\<in>set ps. valid (fst p) \<and> snd p = cost (fst p)) \<longleftrightarrow>
    (\<exists>vs. (\<forall>v\<in>set vs. valid v) \<and> ps = map (\<lambda>v. (v, cost v)) vs)"
  proof
    assume "\<forall>p\<in>set ps. valid (fst p) \<and> snd p = cost (fst p)"
    then show "\<exists>vs. (\<forall>v\<in>set vs. valid v) \<and> ps = map (\<lambda>v. (v, cost v)) vs"
      by (intro exI [of _ "map fst ps"]) (auto simp: prod_eq_iff intro!: nth_equalityI)
  qed auto
  then show ?case by (auto simp: comp_def)
qed

lemma decodes_and_then_list:
  assumes "decodes reads m
      (\<lambda>p bs n. (valid (fst p) \<and> snd p = cost (fst p)) \<and> bs = enc (fst p) \<and> n = cost (fst p))"
    and "\<And>ps. decodes reads (h ps) (Q ps)"
  shows "decodes reads (and_then (repeat_run k m) h) (\<lambda>y bs n. \<exists>vs b2 n2. length vs = k \<and>
    (\<forall>v\<in>set vs. valid v) \<and> Q (map (\<lambda>v. (v, cost v)) vs) y b2 n2 \<and>
    bs = concat (map enc vs) @ b2 \<and> n = sum_list (map cost vs) + n2)"
  by (rule decodes_cong [OF decodes_and_then [OF decodes_repeat_charged [OF assms(1)] assms(2)]]) blast

lemma decodes_integer [decodes_rule]:
  "decodes reads (on_fst (read_worker_integer_from R)) (\<lambda>w bs n. bs = enc_integer w \<and> n = 0)"
  unfolding read_worker_integer_from_def on_fst_simps
  by (rule decodes_cong [OF decodes_and_then [OF decodes_read_exact decodes_ok]])
     (use integer_bytes_iff in auto)

lemma decodes_usize [decodes_rule]:
  "decodes reads (on_fst (read_usize_from R)) (\<lambda>k bs n. k < usize_limit \<and> bs = enc_integer (of_nat k) \<and> n = 0)"
  unfolding read_usize_from_def on_fst_simps
  by (rule decodes_cong [OF decodes_and_then [OF decodes_integer decodes_ok]])
     (auto simp: unat_u64_less, metis unat_of_nat_u64)

lemma decodes_byte_string [decodes_rule]:
  "decodes reads (read_worker_byte_string_with_charge_from R k)
     (\<lambda>p bs n. length (fst p) \<le> k \<and> framed_length (length (fst p)) < usize_limit \<and>
        snd p = framed_length (length (fst p)) \<and> bs = enc_byte_string (fst p) \<and> n = snd p)"
  unfolding read_worker_byte_string_with_charge_from_def
proof (rule decodes_cong, (rule decodes_rule)+, goal_cases)
  case (1 p bs n)
  have eq: "length fr = len + padding_length len \<and> (\<forall>b\<in>set (drop len fr). b = 0) \<and>
      p = (take len fr, c) \<and> Q \<longleftrightarrow>
    length (fst p) = len \<and> fr = fst p @ replicate (padding_length len) 0 \<and> snd p = c \<and> Q" for fr len c Q
    using framed_split [of fr len "fst p"] by (cases p) (auto simp: framed_length_def)
  show ?case
    by (auto simp: eq enc_byte_string_def framed_length_def)
qed

end

text \<open>
  The contract between a decoder and a format: the decoder accepts exactly the encodings of the
  valid values, consumes nothing else, and charges what the value costs.
\<close>

locale wire_codec = byte_source R reads for R :: "'s worker_input" and reads +
  fixes dec :: "('e, 'a, 's \<times> budget) run" and enc :: "'a \<Rightarrow> bytes" and cost :: "'a \<Rightarrow> nat"
    and valid :: "'a \<Rightarrow> bool"
  assumes dec_decodes: "decodes reads dec (\<lambda>x bs n. valid x \<and> bs = enc x \<and> n = cost x)"
begin

lemma dec_iff:
  "budget_ok (snd st) \<Longrightarrow> dec st = Inr (x, st') \<longleftrightarrow> valid x \<and> consumes reads st (enc x) (cost x) st'"
  using decodesD [OF dec_decodes, of st x st'] by auto

lemma dec_repeat:
  "budget_ok (snd st) \<Longrightarrow> repeat_run k dec st = Inr (xs, st') \<longleftrightarrow>
     length xs = k \<and> (\<forall>x\<in>set xs. valid x) \<and>
     consumes reads st (concat (map enc xs)) (sum_list (map cost xs)) st'"
  using decodesD [OF decodes_repeat [OF dec_decodes], of st k xs st'] by auto

lemma dec_charged:
  assumes "budget_ok (snd st)" and "dec st = Inr (x, st')"
  shows "retained_bytes (snd st') = retained_bytes (snd st) + cost x \<and>
     retained_bytes (snd st') \<le> maximum_retained_bytes (snd st)"
  using assms by (auto simp: dec_iff consumes_def charges_def)

lemma enc_prefix_free:
  assumes "valid x" and "valid y" and "cost x < usize_limit" and "cost y < usize_limit"
    and "reads s (enc x) s1" and "reads s (enc y) s2"
  shows "x = y \<and> s1 = s2"
proof -
  define b where "b = \<lparr>retained_bytes = 0, maximum_retained_bytes = max (cost x) (cost y)\<rparr>"
  have b: "budget_ok b" using assms(3,4) by (simp add: b_def budget_ok_def)
  have c: "charges b n (b\<lparr>retained_bytes := n\<rparr>)" if "n \<le> max (cost x) (cost y)" for n
    using that assms(3,4) by (auto simp: charges_def b_def)
  have "dec (s, b) = Inr (x, (s1, b\<lparr>retained_bytes := cost x\<rparr>))"
    using assms b c [of "cost x"] by (simp add: dec_iff consumes_def)
  moreover have "dec (s, b) = Inr (y, (s2, b\<lparr>retained_bytes := cost y\<rparr>))"
    using assms b c [of "cost y"] by (simp add: dec_iff consumes_def)
  ultimately show ?thesis by simp
qed

end

section \<open>The sources of the program\<close>

definition slice_reads :: "bytes \<Rightarrow> bytes \<Rightarrow> bytes \<Rightarrow> bool" where
  "slice_reads s bs s' \<longleftrightarrow> s = bs @ s'"

definition session_reads :: "session_input \<Rightarrow> bytes \<Rightarrow> session_input \<Rightarrow> bool" where
  "session_reads s bs s' \<longleftrightarrow> stream s = bs @ stream s' \<and>
     message_in_progress s' = (message_in_progress s \<or> bs \<noteq> [])"

interpretation slice: byte_source slice_input slice_reads
proof
  show "read_exact slice_input n s = Inr (bs, s') \<longleftrightarrow> length bs = n \<and> slice_reads s bs s'" for n s bs s'
    by (auto simp: slice_input_def slice_read_exact_def slice_reads_def)
qed (auto simp: slice_reads_def)

interpretation session: byte_source session_worker_input session_reads
proof
  show "read_exact session_worker_input n s = Inr (bs, s') \<longleftrightarrow> length bs = n \<and> session_reads s bs s'"
    for n s bs s'
    by (cases s; cases s')
       (auto simp: session_worker_input_def session_read_exact_def session_reads_def)
  show "session_reads s (a @ b) s2 \<longleftrightarrow> (\<exists>s1. session_reads s a s1 \<and> session_reads s1 b s2)" for s a b s2
  proof
    assume "session_reads s (a @ b) s2"
    then show "\<exists>s1. session_reads s a s1 \<and> session_reads s1 b s2"
      by (intro exI [of _ "s\<lparr>stream := b @ stream s2, message_in_progress := message_in_progress s \<or> a \<noteq> []\<rparr>"])
         (auto simp: session_reads_def)
  qed (auto simp: session_reads_def)
qed (auto simp: session_reads_def)


text \<open>The fields of the session's input after a completed message.\<close>

lemma session_complete_reads:
  "(\<exists>s1. session_reads s bs s1 \<and> s' = complete_message session_worker_input s1) \<longleftrightarrow>
     stream s = bs @ stream s' \<and> \<not> message_in_progress s'" (is "?l \<longleftrightarrow> ?r")
proof
  assume ?r
  then show ?l
    by (intro exI [of _ "s'\<lparr>message_in_progress := message_in_progress s \<or> bs \<noteq> []\<rparr>"])
       (auto simp: session_reads_def session_worker_input_def session_complete_message_def)
qed (auto simp: session_reads_def session_worker_input_def session_complete_message_def)

text \<open>Byte strings up to a limit, on a slice and on a session.\<close>

definition byte_string_valid :: "nat \<Rightarrow> bytes \<times> charge \<Rightarrow> bool" where
  "byte_string_valid k p \<longleftrightarrow> length (fst p) \<le> k \<and> framed_length (length (fst p)) < usize_limit \<and>
     snd p = framed_length (length (fst p))"

interpretation slice_byte_string:
  wire_codec slice_input slice_reads "read_worker_byte_string_with_charge_from slice_input k"
    "\<lambda>p. enc_byte_string (fst p)" snd "byte_string_valid k" for k
  by unfold_locales
     (rule decodes_cong [OF slice.decodes_byte_string], auto simp: byte_string_valid_def)

interpretation session_byte_string:
  wire_codec session_worker_input session_reads "read_worker_byte_string_with_charge_from session_worker_input k"
    "\<lambda>p. enc_byte_string (fst p)" snd "byte_string_valid k" for k
  by unfold_locales
     (rule decodes_cong [OF session.decodes_byte_string], auto simp: byte_string_valid_def)

section \<open>String lists\<close>

definition enc_strings :: "bytes list \<Rightarrow> bytes" where
  "enc_strings vs = enc_integer (of_nat (length vs)) @ concat (map enc_byte_string vs)"

definition strings_cost :: "decoded_worker_strings \<Rightarrow> nat" where
  "strings_cost d = strings_collection_charge d + sum_list (strings_value_charges d)"

definition strings_valid :: "decoded_worker_strings \<Rightarrow> bool" where
  "strings_valid d \<longleftrightarrow>
     length (string_values d) \<le> MAXIMUM_HANDSHAKE_FEATURES \<and>
     (\<forall>v\<in>set (string_values d). utf8_valid v \<and> length v \<le> MAXIMUM_HANDSHAKE_FEATURE_LENGTH) \<and>
     strings_collection_charge d = length (string_values d) * size_of_vec \<and>
     strings_value_charges d = map (\<lambda>v. framed_length (length v)) (string_values d)"

lemma framed_length_less [simp]: "n \<le> 1099511627776 \<Longrightarrow> framed_length n < usize_limit"
  using padding_length_less [of n] by (simp add: framed_length_def usize_limit_def)

context byte_source
begin

lemma decodes_feature [decodes_rule]:
  "decodes reads (read_worker_feature R)
     (\<lambda>p bs n. ((utf8_valid (fst p) \<and> length (fst p) \<le> MAXIMUM_HANDSHAKE_FEATURE_LENGTH) \<and>
                snd p = framed_length (length (fst p))) \<and>
                bs = enc_byte_string (fst p) \<and> n = framed_length (length (fst p)))"
  unfolding read_worker_feature_def
  by (rule decodes_cong, (rule decodes_rule)+)
     (auto simp: split_beta limit_defs)

lemma decodes_strings [decodes_rule]:
  "decodes reads (read_worker_strings_from R)
     (\<lambda>d bs n. strings_valid d \<and> bs = enc_strings (string_values d) \<and> n = strings_cost d)"
  unfolding read_worker_strings_from_def
proof (rule decodes_cong, (rule decodes_and_then_list [OF decodes_feature] decodes_rule)+, goal_cases)
  case (1 d bs n)
  show ?case
    by (cases d) (auto simp: strings_valid_def strings_cost_def enc_strings_def limit_defs size_of_vec_def
      usize_limit_def comp_def split: option.splits)
qed

end

section \<open>Writers\<close>

lemma write_integer_eval [writer_eval]: "write_worker_integer_to w out = (Inr (), out @ enc_integer w)"
  by (simp add: write_worker_integer_to_def enc_integer_def writer_eval)

lemma write_byte_string_eval [writer_eval]:
  "write_worker_byte_string_to v out = (Inr (), out @ enc_byte_string v)"
proof -
  have "take ((8 - length v mod 8) mod 8) (replicate 7 (0 :: byte)) = replicate (padding_length (length v)) 0"
    using padding_length_less [of "length v"] by (simp add: padding_length_def min_def)
  then show ?thesis
    by (simp add: write_worker_byte_string_to_def writer_eval enc_byte_string_def)
qed

lemma write_strings_eval [writer_eval]:
  "write_worker_strings_to vs out = (Inr (), out @ enc_strings vs)"
  by (simp add: write_worker_strings_to_def writer_eval w_each_eval [of _ _ enc_byte_string] enc_strings_def)

lemma write_worker_byte_string_eq:
  "write_worker_byte_string out v = snd (write_worker_byte_string_to v out)"
  by (simp add: writer_eval write_worker_byte_string_def write_worker_integer_def enc_byte_string_def
      enc_integer_def padding_length_def)

section \<open>Properties\<close>

text \<open>
  C16: The streaming reader accepts a padded byte string exactly when the input starts with what the
  writer emits for it, the string is within the limit of the call, and the session budget can hold
  its framed length; it then leaves the rest of the input and charges exactly the framed length.
\<close>

theorem byte_string_reader_canonical:
  assumes "budget_ok b"
  shows "read_worker_byte_string_with_charge_from slice_input k (s, b) = Inr ((x, c), (r, b')) \<longleftrightarrow>
    length x \<le> k \<and> s = snd (write_worker_byte_string_to x []) @ r \<and>
    c = framed_length (length x) \<and> charge c b = Inr (c, b')"
  using slice_byte_string.dec_iff [of "(s, b)" k "(x, c)" "(r, b')"] assms
  by (auto simp: consumes_def slice_reads_def byte_string_valid_def writer_eval charge_eq_charges charges_def)

theorem byte_string_reader_canonical_witness:
  "budget_ok \<lparr>retained_bytes = 0, maximum_retained_bytes = 64\<rparr> \<and>
   read_worker_byte_string_with_charge_from slice_input 4
     ([3, 0, 0, 0, 0, 0, 0, 0, 110, 105, 120, 0, 0, 0, 0, 0, 9],
      \<lparr>retained_bytes = 0, maximum_retained_bytes = 64\<rparr>) =
   Inr (([110, 105, 120], 8), ([9], \<lparr>retained_bytes = 8, maximum_retained_bytes = 64\<rparr>))"
proof -
  have ok: "budget_ok \<lparr>retained_bytes = 0, maximum_retained_bytes = 64\<rparr>"
    by (simp add: budget_ok_def usize_limit_def)
  show ?thesis
    using ok byte_string_reader_canonical [OF ok, of 4
        "[3, 0, 0, 0, 0, 0, 0, 0, 110, 105, 120, 0, 0, 0, 0, 0, 9]" "[110, 105, 120]" 8 "[9]"
        "\<lparr>retained_bytes = 8, maximum_retained_bytes = 64\<rparr>"]
    by (simp add: writer_eval enc_byte_string_def enc_integer_def padding_length_def framed_length_def
        charge_Inr usize_limit_def replicate_num le_bytes_num)
qed

lemma slice_integer_iff: "read_worker_integer s = Inr (w, r) \<longleftrightarrow> s = enc_integer w @ r"
proof -
  have "read_worker_integer s = Inr (w, r) \<longleftrightarrow>
      (\<exists>bs. s = bs @ r \<and> length bs = 8 \<and> w = of_nat (le_nat bs))"
    by (auto simp: read_worker_integer_def intro!: exI [of _ "take 8 s"])
  then show ?thesis by (auto simp: integer_bytes_iff)
qed

lemma slice_framed_iff:
  "(n + padding_length n \<le> length s \<and> (\<forall>b\<in>set (drop n (take (n + padding_length n) s)). b = 0) \<and>
     x = take n (take (n + padding_length n) s) \<and> r = drop (n + padding_length n) s) \<longleftrightarrow>
   length x = n \<and> s = x @ replicate (padding_length n) 0 @ r" (is "?l \<longleftrightarrow> ?r")
proof
  assume ?l
  then have "length x = n \<and> take (n + padding_length n) s = x @ replicate (padding_length n) 0"
    using framed_split [of "take (n + padding_length n) s" n x] by (simp add: framed_length_def)
  then show ?r using \<open>?l\<close> by (metis append_assoc append_take_drop_id)
qed auto

lemma slice_byte_string_iff:
  "read_worker_byte_string k s = Inr (x, r) \<longleftrightarrow>
     length x \<le> k \<and> framed_length (length x) < usize_limit \<and> s = enc_byte_string x @ r"
proof (cases "read_worker_integer s")
  case (Inl e)
  then have "s \<noteq> enc_byte_string x @ r"
    using slice_integer_iff [of s "of_nat (length x)"] by (auto simp: enc_byte_string_def)
  then show ?thesis using Inl by (simp add: read_worker_byte_string_def)
next
  case (Inr p)
  obtain w s1 where p: "p = (w, s1)" by (cases p)
  then have s: "s = enc_integer w @ s1" using Inr slice_integer_iff by blast
  have "read_worker_byte_string k s = Inr (x, r) \<longleftrightarrow>
      unat w \<le> k \<and> framed_length (unat w) < usize_limit \<and>
      length x = unat w \<and> s1 = x @ replicate (padding_length (unat w)) 0 @ r"
    unfolding slice_framed_iff [symmetric] framed_length_def
    by (auto simp: read_worker_byte_string_def Inr p Let_def split: option.splits)
  also have "\<dots> \<longleftrightarrow> length x \<le> k \<and> framed_length (length x) < usize_limit \<and> s = enc_byte_string x @ r"
    using unat_of_nat_u64 [of "length x"] by (auto simp: s enc_byte_string_def framed_length_def)
  finally show ?thesis .
qed

text \<open>
  C29: The reader over a slice and the streaming reader accept the same byte strings, return the same
  value and leave the same rest, when the budget is not the limiting factor.
\<close>

theorem slice_reader_agrees:
  "read_worker_byte_string k s = Inr (x, r) \<longleftrightarrow>
   (\<exists>c b'. read_worker_byte_string_with_charge_from slice_input k
       (s, \<lparr>retained_bytes = 0, maximum_retained_bytes = usize_limit - 1\<rparr>) = Inr ((x, c), (r, b')))"
proof -
  let ?b = "\<lparr>retained_bytes = 0, maximum_retained_bytes = usize_limit - 1\<rparr>"
  have "budget_ok ?b" by (simp add: budget_ok_def usize_limit_def)
  then have "(\<exists>c b'. read_worker_byte_string_with_charge_from slice_input k (s, ?b) = Inr ((x, c), (r, b'))) \<longleftrightarrow>
      length x \<le> k \<and> framed_length (length x) < usize_limit \<and> s = enc_byte_string x @ r"
    using slice_byte_string.dec_iff [of "(s, ?b)" k]
    by (auto simp: consumes_def slice_reads_def byte_string_valid_def charges_def)
  then show ?thesis by (simp add: slice_byte_string_iff)
qed

lemma operation_from_code: "worker_operation_from_code (operation_code op) = Inr op"
  by (cases op) (simp_all add: worker_operation_from_code_def)

lemma operation_from_code_only: "worker_operation_from_code c = Inr op \<Longrightarrow> c = operation_code op"
  unfolding worker_operation_from_code_def by (elim if_eqE) auto

text \<open>
  C30: Operation codes are decoded to an operation exactly when they are the code of that operation, so
  distinct operations have distinct codes and every other code is refused as unsupported.
\<close>

theorem operation_code_roundtrip:
  "(worker_operation_from_code c = Inr op \<longleftrightarrow> c = operation_code op) \<and>
   (worker_operation_from_code c = Inl UnsupportedOperation \<longleftrightarrow> c \<notin> range operation_code)"
proof -
  have "worker_operation_from_code c = Inr op \<longleftrightarrow> c = operation_code op" for op
    using operation_from_code operation_from_code_only by blast
  moreover have "worker_operation_from_code c = Inl e \<Longrightarrow> e = UnsupportedOperation" for e
    unfolding worker_operation_from_code_def by (elim if_eqE) auto
  ultimately show ?thesis by (cases "worker_operation_from_code c") auto
qed

lemma from_to_wire: "from_wire (to_wire v) = v"
proof -
  have m: "(0x00ff :: u64) = mask 8" "(0xff00 :: u64) = push_bit 8 (mask 8)"
    by (simp_all add: mask_eq_exp_minus_1 push_bit_eq_mult)
  show ?thesis unfolding from_wire_def to_wire_def m
    by (cases v) (auto simp: bit_eq_iff bit_simps dest: bit_imp_le_length)
qed

lemma unat_to_wire: "unat (to_wire v) = 256 * unat (version_major v) + unat (version_minor v)"
proof -
  have "to_wire v = push_bit 8 (ucast (version_major v)) + ucast (version_minor v)"
    unfolding to_wire_def
    by (rule disjunctive_add [symmetric]) (auto simp: bit_simps dest: bit_imp_le_length)
  also have "\<dots> = of_nat (256 * unat (version_major v) + unat (version_minor v))"
    by (simp add: push_bit_eq_mult)
  finally have "to_wire v = of_nat (256 * unat (version_major v) + unat (version_minor v))" .
  moreover have "256 * unat (version_major v) + unat (version_minor v) < usize_limit"
    using unat_byte_less [of "version_major v"] unat_byte_less [of "version_minor v"]
    by (simp add: usize_limit_def)
  ultimately show ?thesis using unat_of_nat_u64 by metis
qed

text \<open>
  C31: A version survives its wire form, and the wire form orders versions as the program compares them.
\<close>

theorem version_wire_roundtrip:
  "from_wire (to_wire v) = v \<and> (to_wire v \<le> to_wire w \<longleftrightarrow> v \<le> w)"
  using unat_byte_less [of "version_minor v"] unat_byte_less [of "version_minor w"]
  by (auto simp: from_to_wire word_le_nat_alt word_less_nat_alt unat_to_wire word_unat_eq_iff less_eq_worker_version_def)

end
