(* ===== verification/Store_Path.thy ===== *)
theory Store_Path
  imports Wire
begin

text \<open>
  Store paths and derived paths: the validators of \<^verbatim>\<open>nix-worker-protocol/src/client.rs\<close> and the
  server-side checks of \<^verbatim>\<open>lib.rs\<close>, each proved to accept exactly the strings of a grammar. The
  interface \<^verbatim>\<open>store_path_validator\<close> is what the request decoders and the other components rely on.
\<close>

section \<open>Validators\<close>

definition protocol_client_error :: io_error where
  "protocol_client_error = IoError Other ''Nix daemon operation failed''"

abbreviation slash :: byte where
  "slash \<equiv> 0x2F"

abbreviation dash :: byte where
  "dash \<equiv> 0x2D"

abbreviation bang :: byte where
  "bang \<equiv> 0x21"

abbreviation comma :: byte where
  "comma \<equiv> 0x2C"

definition store_name_byte :: "byte \<Rightarrow> bool" where
  "store_name_byte b \<longleftrightarrow> is_ascii_alphanumeric b \<or> b \<in> set (ascii ''+-._?='')"

definition output_name_byte :: "byte \<Rightarrow> bool" where
  "output_name_byte b \<longleftrightarrow> is_ascii_alphanumeric b \<or> b \<in> set (ascii ''+-._'')"

definition validate_store_directory :: "bytes \<Rightarrow> io_error + unit" where
  "validate_store_directory directory =
     (if directory = [] \<or> MAXIMUM_WORKER_STORE_PATH_BYTES \<le> length directory \<or>
         \<not> starts_with directory [slash] \<or> ends_with directory [slash] \<or> 0 \<in> set directory
      then Inl protocol_client_error else Inr ())"

definition path_get :: "'a list \<Rightarrow> nat \<Rightarrow> 'a option" where
  "path_get xs i = (if i < length xs then Some (xs ! i) else None)"

definition invalid_store_path :: io_error where
  "invalid_store_path = invalid_data ''invalid QueryValidPaths request''"

definition validate_store_path_in_directory :: "bytes \<Rightarrow> bytes \<Rightarrow> io_error + unit" where
  "validate_store_path_in_directory path directory =
     result_then (validate_store_directory directory) (\<lambda>_.
     let prefix_length = length directory + 1 in
     if MAXIMUM_WORKER_STORE_PATH_BYTES < length path \<or> \<not> starts_with path directory \<or>
        path_get path (length directory) \<noteq> Some slash \<or>
        slash \<in> set (drop prefix_length path) \<or>
        length path \<le> prefix_length + NIX_STORE_HASH_LENGTH + 1
     then Inl invalid_store_path
     else
       let base = last (split_on slash path) in
       if length base \<le> NIX_STORE_HASH_LENGTH + 1 \<or> base ! NIX_STORE_HASH_LENGTH \<noteq> dash \<or>
          \<not> list_all (\<lambda>b. b \<in> set NIX_STORE_HASH_ALPHABET) (take NIX_STORE_HASH_LENGTH base) \<or>
          \<not> list_all store_name_byte (drop (NIX_STORE_HASH_LENGTH + 1) base)
       then Inl invalid_store_path
       else Inr ())"

text \<open>\<^verbatim>\<open>NIX_STORE_DIRECTORY.strip_suffix(b"/")\<close>.\<close>

definition validate_store_path :: "bytes \<Rightarrow> io_error + unit" where
  "validate_store_path path =
     (if ends_with NIX_STORE_DIRECTORY [slash]
      then validate_store_path_in_directory path (butlast NIX_STORE_DIRECTORY)
      else Inl protocol_client_error)"

definition output_selector_ok :: "bytes \<Rightarrow> bool" where
  "output_selector_ok output \<longleftrightarrow>
     output \<noteq> [] \<and> (output = ascii ''*'' \<or> list_all output_name_byte output)"

text \<open>The derived-path check of the server (\<^verbatim>\<open>lib.rs\<close>) and that of the client (\<^verbatim>\<open>client.rs\<close>).\<close>

definition invalid_query_missing_request :: io_error where
  "invalid_query_missing_request = invalid_data ''invalid QueryMissing request''"

definition derived_path_error :: "io_error \<Rightarrow> io_error" where
  "derived_path_error e = invalid_data (''invalid QueryMissing derived path: '' @ io_error_message e)"

definition validate_derived_path :: "bytes \<Rightarrow> io_error + unit" where
  "validate_derived_path target =
     (case position bang target of
        Some separator \<Rightarrow>
          let outputs = drop (Suc separator) target in
          if outputs = [] \<or> \<not> list_all output_selector_ok (split_on comma outputs)
          then Inl invalid_query_missing_request
          else result_map_err derived_path_error (validate_store_path (take separator target))
      | None \<Rightarrow> result_map_err derived_path_error (validate_store_path target))"

definition client_validate_derived_path :: "bytes \<Rightarrow> io_error + unit" where
  "client_validate_derived_path target =
     (case split_on bang target of
        [] \<Rightarrow> Inl protocol_client_error
      | [path] \<Rightarrow> validate_store_path path
      | [path, outputs] \<Rightarrow>
          result_then (validate_store_path path) (\<lambda>_.
          if \<not> ends_with path (ascii ''.drv'') \<or> outputs = [] \<or>
             MAXIMUM_WORKER_STORE_PATH_BYTES < length outputs \<or>
             \<not> list_all output_selector_ok (split_on comma outputs)
          then Inl protocol_client_error else Inr ())
      | _ \<Rightarrow> Inl protocol_client_error)"

definition validate_build_store_path :: "bytes \<Rightarrow> io_error + unit" where
  "validate_build_store_path path =
     result_then (validate_store_path path) (\<lambda>_.
     if starts_with path NIX_STORE_DIRECTORY then Inr () else Inl (invalid_data ''invalid store path''))"

definition strip_prefix :: "'a list \<Rightarrow> 'a list \<Rightarrow> 'a list option" where
  "strip_prefix p xs = (if prefix p xs then Some (drop (length p) xs) else None)"

definition validate_build_output_hash :: "bytes \<Rightarrow> bytes \<Rightarrow> io_error + unit" where
  "validate_build_output_hash hash_algorithm hash =
     (if hash_algorithm = [] \<and> hash = [] then Inr ()
      else
        let algorithm = (case strip_prefix (ascii ''r:'') hash_algorithm of Some a \<Rightarrow> a | None \<Rightarrow> hash_algorithm);
            check = (\<lambda>expected_hex_bytes :: nat.
              if length hash \<noteq> expected_hex_bytes \<or>
                 \<not> list_all (\<lambda>b. is_ascii_hexdigit b \<and> \<not> is_ascii_uppercase b) hash
              then Inl (invalid_data ''invalid BuildDerivation output hash'') else Inr ()) in
        if algorithm = ascii ''md5'' then check 32
        else if algorithm = ascii ''sha1'' then check 40
        else if algorithm = ascii ''sha256'' then check 64
        else if algorithm = ascii ''sha512'' then check 128
        else Inl (invalid_data ''unsupported BuildDerivation output hash algorithm''))"

section \<open>Grammar\<close>

text \<open>A store path: directory, slash, 32 characters of the Nix alphabet, dash, a nonempty name.\<close>

definition store_path_shape :: "bytes \<Rightarrow> bytes \<Rightarrow> bool" where
  "store_path_shape directory path \<longleftrightarrow>
     (\<exists>hash name. path = directory @ slash # hash @ dash # name \<and>
        length hash = NIX_STORE_HASH_LENGTH \<and> set hash \<subseteq> set NIX_STORE_HASH_ALPHABET \<and>
        name \<noteq> [] \<and> list_all store_name_byte name \<and> length path \<le> MAXIMUM_WORKER_STORE_PATH_BYTES)"

abbreviation nix_store :: bytes where
  "nix_store \<equiv> ascii ''/nix/store''"

abbreviation is_store_path :: "bytes \<Rightarrow> bool" where
  "is_store_path path \<equiv> store_path_shape nix_store path"

section \<open>Lemmas\<close>

lemma slash_in_names:
  "slash \<notin> set NIX_STORE_HASH_ALPHABET" "\<not> store_name_byte slash" "bang \<notin> set NIX_STORE_HASH_ALPHABET"
  "\<not> store_name_byte bang" "dash \<noteq> slash" "bang \<notin> set nix_store" "slash \<noteq> bang" "dash \<noteq> bang"
  by (simp_all add: NIX_STORE_HASH_ALPHABET_def ascii_def store_name_byte_def is_ascii_alphanumeric_def
      is_ascii_lowercase_def is_ascii_uppercase_def is_ascii_digit_def)

lemma base_name_iff:
  "\<not> (length base \<le> NIX_STORE_HASH_LENGTH + 1 \<or> base ! NIX_STORE_HASH_LENGTH \<noteq> dash \<or>
       \<not> list_all (\<lambda>b. b \<in> set NIX_STORE_HASH_ALPHABET) (take NIX_STORE_HASH_LENGTH base) \<or>
       \<not> list_all store_name_byte (drop (NIX_STORE_HASH_LENGTH + 1) base)) \<longleftrightarrow>
   (\<exists>hash name. base = hash @ dash # name \<and> length hash = NIX_STORE_HASH_LENGTH \<and>
      set hash \<subseteq> set NIX_STORE_HASH_ALPHABET \<and> name \<noteq> [] \<and> list_all store_name_byte name)" (is "?l \<longleftrightarrow> ?r")
proof
  assume l: ?l
  let ?h = "take NIX_STORE_HASH_LENGTH base" and ?n = "drop (NIX_STORE_HASH_LENGTH + 1) base"
  have "base = ?h @ dash # ?n"
    using l id_take_nth_drop [of NIX_STORE_HASH_LENGTH base] by simp
  then show ?r using l
    by (intro exI [of _ ?h] exI [of _ ?n]) (auto simp: list_all_iff)
next
  assume ?r
  then show ?l by (auto simp: list_all_iff nth_append)
qed

lemma store_path_shape_code [code]:
  "store_path_shape directory path \<longleftrightarrow>
     length path \<le> MAXIMUM_WORKER_STORE_PATH_BYTES \<and> prefix (directory @ [slash]) path \<and>
     (let base = drop (length directory + 1) path in
      \<not> (length base \<le> NIX_STORE_HASH_LENGTH + 1 \<or> base ! NIX_STORE_HASH_LENGTH \<noteq> dash \<or>
        \<not> list_all (\<lambda>b. b \<in> set NIX_STORE_HASH_ALPHABET) (take NIX_STORE_HASH_LENGTH base) \<or>
        \<not> list_all store_name_byte (drop (NIX_STORE_HASH_LENGTH + 1) base)))"
  unfolding Let_def base_name_iff store_path_shape_def prefix_def by (auto; blast)

lemma validate_store_path_in_directory_iff:
  "validate_store_path_in_directory path directory = Inr () \<longleftrightarrow>
     validate_store_directory directory = Inr () \<and> store_path_shape directory path"
proof (cases "validate_store_directory directory")
  case (Inr u)
  have dir: "directory \<noteq> [] \<and> starts_with directory [slash]"
    using Inr by (auto simp: validate_store_directory_def split: if_splits)
  show ?thesis
  proof
    assume "validate_store_path_in_directory path directory = Inr ()"
    then have len: "length path \<le> MAXIMUM_WORKER_STORE_PATH_BYTES" and "starts_with path directory"
      and sl: "path_get path (length directory) = Some slash" and ns: "slash \<notin> set (drop (length directory + 1) path)"
      and base: "\<not> (let base = last (split_on slash path) in
          length base \<le> NIX_STORE_HASH_LENGTH + 1 \<or> base ! NIX_STORE_HASH_LENGTH \<noteq> dash \<or>
          \<not> list_all (\<lambda>b. b \<in> set NIX_STORE_HASH_ALPHABET) (take NIX_STORE_HASH_LENGTH base) \<or>
          \<not> list_all store_name_byte (drop (NIX_STORE_HASH_LENGTH + 1) base))"
      unfolding validate_store_path_in_directory_def Let_def by (auto simp: Inr split: if_splits)
    then obtain rest where p: "path = directory @ slash # rest"
      by (auto simp: starts_with_def prefix_def path_get_def nth_append neq_Nil_conv split: if_splits)
    then have "last (split_on slash path) = rest"
      using ns by (simp add: split_on_append split_on_notin)
    then show "validate_store_directory directory = Inr () \<and> store_path_shape directory path"
      using base len p Inr unfolding Let_def base_name_iff store_path_shape_def by auto
  next
    assume "validate_store_directory directory = Inr () \<and> store_path_shape directory path"
    then obtain hash name where p: "path = directory @ slash # hash @ dash # name"
      and hn: "length hash = NIX_STORE_HASH_LENGTH" "set hash \<subseteq> set NIX_STORE_HASH_ALPHABET"
        "name \<noteq> []" "list_all store_name_byte name" "length path \<le> MAXIMUM_WORKER_STORE_PATH_BYTES"
      unfolding store_path_shape_def by blast
    have ns: "slash \<notin> set (hash @ dash # name)"
      using hn slash_in_names by (auto simp: list_all_iff)
    then have base: "last (split_on slash path) = hash @ dash # name"
      unfolding p by (simp add: split_on_append split_on_notin)
    have "\<not> (let base = last (split_on slash path) in
          length base \<le> NIX_STORE_HASH_LENGTH + 1 \<or> base ! NIX_STORE_HASH_LENGTH \<noteq> dash \<or>
          \<not> list_all (\<lambda>b. b \<in> set NIX_STORE_HASH_ALPHABET) (take NIX_STORE_HASH_LENGTH base) \<or>
          \<not> list_all store_name_byte (drop (NIX_STORE_HASH_LENGTH + 1) base))"
      unfolding Let_def base base_name_iff using hn by blast
    then show "validate_store_path_in_directory path directory = Inr ()"
      using Inr hn ns unfolding validate_store_path_in_directory_def Let_def
      by (auto simp: p starts_with_def path_get_def)
  qed
qed (simp add: validate_store_path_in_directory_def result_then_def)

lemma nix_store_directory: "butlast NIX_STORE_DIRECTORY = nix_store" "ends_with NIX_STORE_DIRECTORY [slash]"
  by (simp_all add: NIX_STORE_DIRECTORY_def ascii_def ends_with_def suffix_to_prefix)

lemma nix_store_directory_valid: "validate_store_directory nix_store = Inr ()"
  by (simp add: validate_store_directory_def limit_defs NIX_STORE_DIRECTORY_def ascii_def ends_with_def starts_with_def suffix_to_prefix)

lemma validate_store_path_iff: "validate_store_path path = Inr () \<longleftrightarrow> is_store_path path"
  by (simp add: validate_store_path_def nix_store_directory validate_store_path_in_directory_iff
      nix_store_directory_valid)


text \<open>The server accepts a store path, optionally followed by a bang and output selectors.\<close>

lemma store_path_no_bang: "is_store_path path \<Longrightarrow> bang \<notin> set path"
  using slash_in_names by (auto simp: store_path_shape_def list_all_iff)

lemma validate_derived_path_iff:
  "validate_derived_path target = Inr () \<longleftrightarrow>
     is_store_path target \<or>
     (\<exists>path outputs. target = path @ bang # outputs \<and> is_store_path path \<and> outputs \<noteq> [] \<and>
        list_all output_selector_ok (split_on comma outputs))"
proof (cases "position bang target")
  case None
  then have "bang \<notin> set target" by (simp add: position_None)
  then show ?thesis
    using None by (auto simp: validate_derived_path_def validate_store_path_iff)
next
  case (Some i)
  then obtain p os where t: "target = p @ bang # os" "bang \<notin> set p" "length p = i"
    by (auto simp: position_Some)
  then have u: "p' = p \<and> os' = os" if "target = p' @ bang # os'" "bang \<notin> set p'" for p' os'
    using that first_split_unique by metis
  have "\<not> is_store_path target" using t store_path_no_bang [of target] by auto
  moreover have "validate_derived_path target = Inr () \<longleftrightarrow>
      is_store_path p \<and> os \<noteq> [] \<and> list_all output_selector_ok (split_on comma os)"
    unfolding validate_derived_path_def Some using t by (auto simp: validate_store_path_iff)
  ultimately show ?thesis using u store_path_no_bang t(1) by blast
qed

lemma client_derived_path_iff:
  "client_validate_derived_path target = Inr () \<longleftrightarrow>
     is_store_path target \<or>
     (\<exists>path outputs. target = path @ bang # outputs \<and> bang \<notin> set outputs \<and> is_store_path path \<and>
        ends_with path (ascii ''.drv'') \<and> outputs \<noteq> [] \<and>
        length outputs \<le> MAXIMUM_WORKER_STORE_PATH_BYTES \<and>
        list_all output_selector_ok (split_on comma outputs))"
proof (cases "bang \<in> set target")
  case False
  then show ?thesis
    by (auto simp: client_validate_derived_path_def split_on_notin validate_store_path_iff)
next
  case True
  then obtain p os where t: "target = p @ bang # os" "bang \<notin> set p" by (meson split_list_first)
  have ns: "\<not> is_store_path target" using True store_path_no_bang by blast
  have u: "p' = p \<and> os' = os" if "target = p' @ bang # os'" "is_store_path p'" for p' os'
    using that t store_path_no_bang first_split_unique by metis
  have "client_validate_derived_path target = Inr () \<longleftrightarrow>
      is_store_path p \<and> bang \<notin> set os \<and> ends_with p (ascii ''.drv'') \<and> os \<noteq> [] \<and>
      length os \<le> MAXIMUM_WORKER_STORE_PATH_BYTES \<and> list_all output_selector_ok (split_on comma os)"
  proof (cases "bang \<in> set os")
    case True
    then obtain q r where "os = q @ bang # r" "bang \<notin> set q" by (meson split_list_first)
    then have "split_on bang target = p # q # split_on bang r" using t by (simp add: split_on_first)
    then show ?thesis using True
      by (cases "split_on bang r") (simp_all add: client_validate_derived_path_def)
  next
    case False
    then have "split_on bang target = [p, os]" using t by (simp add: split_on_first split_on_notin)
    then show ?thesis using False
      by (auto simp: client_validate_derived_path_def validate_store_path_iff)
  qed
  then show ?thesis using ns u t(1) by blast
qed

text \<open>
  C32: Every derived path that the client of a daemon accepts is accepted by the server side as well.
\<close>

theorem client_derived_paths_accepted:
  "client_validate_derived_path target = Inr () \<Longrightarrow> validate_derived_path target = Inr ()"
  by (auto simp: client_derived_path_iff validate_derived_path_iff)

lemma validate_build_store_path_iff: "validate_build_store_path path = Inr () \<longleftrightarrow> is_store_path path"
proof -
  have "prefix NIX_STORE_DIRECTORY (nix_store @ slash # r)" for r
    by (simp add: NIX_STORE_DIRECTORY_def ascii_def)
  then show ?thesis
    by (auto simp: validate_build_store_path_def validate_store_path_iff store_path_shape_def starts_with_def)
qed


theorem client_derived_paths_accepted_witness:
  "client_validate_derived_path
     (ascii ''/nix/store/00000000000000000000000000000000-contract.drv!dev,out'') = Inr () \<and>
   validate_derived_path
     (ascii ''/nix/store/00000000000000000000000000000000-contract.drv!dev,out'') = Inr ()"
proof -
  have "client_validate_derived_path
     (ascii ''/nix/store/00000000000000000000000000000000-contract.drv!dev,out'') = Inr ()"
    by code_simp
  then show ?thesis using client_derived_paths_accepted by blast
qed

section \<open>The interface\<close>

lemma utf8_valid_ascii: "list_all (\<lambda>b. b < 0x80) bs \<Longrightarrow> utf8_valid bs"
  by (induction bs) auto

lemma store_path_bytes_ascii: "is_store_path path \<Longrightarrow> list_all (\<lambda>b. 0 < b \<and> b < 0x80) path"
proof -
  have "list_all (\<lambda>b. 0 < b \<and> b < 0x80) NIX_STORE_HASH_ALPHABET" "list_all (\<lambda>b. 0 < b \<and> b < 0x80) nix_store"
    by (simp_all add: NIX_STORE_HASH_ALPHABET_def ascii_def)
  moreover have "0 < b \<and> b < 0x80" if "store_name_byte b" for b
    using that by (auto simp: store_name_byte_def is_ascii_alphanumeric_def is_ascii_lowercase_def
        is_ascii_uppercase_def is_ascii_digit_def ascii_def word_le_nat_alt word_less_nat_alt)
  moreover assume "is_store_path path"
  ultimately show ?thesis by (auto simp: store_path_shape_def list_all_iff subset_iff)
qed

text \<open>What a client may assume of a path that a validator let through.\<close>

locale store_path_validator =
  fixes validate :: "bytes \<Rightarrow> 'e + unit"
  assumes validate_iff: "validate path = Inr () \<longleftrightarrow> is_store_path path"
begin

lemma accepted_length: "validate path = Inr () \<Longrightarrow> length path \<le> MAXIMUM_WORKER_STORE_PATH_BYTES"
  by (auto simp: validate_iff store_path_shape_def)

lemma accepted_utf8: "validate path = Inr () \<Longrightarrow> utf8_valid path"
  using store_path_bytes_ascii [of path] by (intro utf8_valid_ascii) (auto simp: validate_iff list_all_iff)

lemma accepted_no_nul: "validate path = Inr () \<Longrightarrow> 0 \<notin> set path"
  using store_path_bytes_ascii [of path] by (auto simp: validate_iff list_all_iff)

lemma accepted_nonempty: "validate path = Inr () \<Longrightarrow> path \<noteq> []"
  by (auto simp: validate_iff store_path_shape_def)

lemma rejected: "validate path \<noteq> Inr () \<Longrightarrow> \<exists>e. validate path = Inl e"
  by (cases "validate path") auto

end

interpretation worker_path: store_path_validator validate_store_path
  by unfold_locales (rule validate_store_path_iff)

interpretation build_path: store_path_validator validate_build_store_path
  by unfold_locales (rule validate_build_store_path_iff)

end
