(* ===== verification/Requests.thy ===== *)
theory Requests
  imports Store_Path
begin

text \<open>
  The request decoders of the server side, \<^verbatim>\<open>WorkerReader\<close> of \<^verbatim>\<open>nix-worker-protocol/src/lib.rs\<close> with
  the request types of \<^verbatim>\<open>requests.rs\<close>. Every decoder is a run on the input and the session budget; a
  request keeps the charges of what it retains, and dropping the request gives them back.
\<close>

section \<open>Requests\<close>

record store_path_request =
  spr_path :: bytes
  spr_charge :: charge

record query_missing_request =
  qmr_targets :: "bytes list"
  qmr_collection_charge :: charge
  qmr_value_charges :: "charge list"

record build_paths_with_results_request =
  bpr_targets :: "bytes list"
  bpr_build_mode :: u64
  bpr_collection_charge :: charge
  bpr_value_charges :: "charge list"

record query_valid_paths_request =
  qvr_paths :: "bytes list"
  qvr_substitute :: bool
  qvr_collection_charge :: charge
  qvr_value_charges :: "charge list"

record build_derivation_output =
  bdo_name :: bytes
  bdo_path :: bytes
  bdo_hash_algorithm :: bytes
  bdo_hash :: bytes
  bdo_charges :: "charge list"

record build_derivation_request =
  bdr_drv_path :: bytes
  bdr_outputs :: "build_derivation_output list"
  bdr_input_sources :: "bytes list"
  bdr_platform :: bytes
  bdr_builder :: bytes
  bdr_arguments :: "bytes list"
  bdr_environment :: "(bytes \<times> bytes) list"
  bdr_build_mode :: u64
  bdr_collection_charges :: "charge list"
  bdr_string_charges :: "charge list"

section \<open>Ends of messages\<close>

definition complete_run :: "'s worker_input \<Rightarrow> (io_error, unit, 's \<times> budget) run" where
  "complete_run R st = Inr ((), (complete_message R (fst st), snd st))"

definition no_unread_data :: "'s worker_input \<Rightarrow> io_error \<Rightarrow> (io_error, unit, 's \<times> budget) run" where
  "no_unread_data R e st = (if has_unread_message_data R (fst st) then Inl e else Inr ((), st))"

section \<open>Store path, valid path and derived path requests\<close>

definition read_store_path_request :: "'s worker_input \<Rightarrow> (io_error, store_path_request, 's \<times> budget) run" where
  "read_store_path_request R =
     and_then (read_worker_byte_string_with_charge_from R MAXIMUM_WORKER_STORE_PATH_BYTES) (\<lambda>(path, c).
     and_then (lift_result (validate_store_path path)) (\<lambda>_.
     ok \<lparr>spr_path = path, spr_charge = c\<rparr>))"

definition complete_store_path_request :: "'s worker_input \<Rightarrow> (io_error, store_path_request, 's \<times> budget) run" where
  "complete_store_path_request R =
     and_then (read_store_path_request R) (\<lambda>request.
     and_then (complete_run R) (\<lambda>_. ok request))"

text \<open>
  The loops that refuse a value already read: \<^verbatim>\<open>item\<close> reads and validates one value, \<^verbatim>\<open>seen\<close> holds the
  values pushed so far.
\<close>

primrec read_distinct ::
  "(io_error, bytes \<times> charge, 's) run \<Rightarrow> io_error \<Rightarrow> nat \<Rightarrow> bytes list \<Rightarrow> (io_error, (bytes \<times> charge) list, 's) run" where
  "read_distinct item e 0 seen = ok []"
| "read_distinct item e (Suc n) seen =
     and_then item (\<lambda>(v, c).
     and_then (ensure (v \<notin> set seen) e) (\<lambda>_.
     and_then (read_distinct item e n (seen @ [v])) (\<lambda>rest. ok ((v, c) # rest))))"

definition invalid_query_valid_paths :: io_error where
  "invalid_query_valid_paths = invalid_data ''invalid QueryValidPaths request''"

definition read_query_valid_path :: "'s worker_input \<Rightarrow> (io_error, bytes \<times> charge, 's \<times> budget) run" where
  "read_query_valid_path R =
     and_then (map_err (\<lambda>_. invalid_query_valid_paths)
       (read_worker_byte_string_with_charge_from R MAXIMUM_WORKER_STORE_PATH_BYTES)) (\<lambda>(path, c).
     and_then (lift_result (validate_store_path path)) (\<lambda>_. ok (path, c)))"

definition read_substitute :: "'s worker_input \<Rightarrow> worker_version \<Rightarrow> (io_error, bool, 's \<times> budget) run" where
  "read_substitute R version =
     (if WorkerVersion 1 27 \<le> version
      then and_then (on_fst (read_worker_integer_from R)) (\<lambda>w.
             if w = 0 then ok False else if w = 1 then ok True
             else fail_with invalid_query_valid_paths)
      else ok False)"

definition read_query_valid_paths ::
  "'s worker_input \<Rightarrow> worker_version \<Rightarrow> (io_error, query_valid_paths_request, 's \<times> budget) run" where
  "read_query_valid_paths R version =
     and_then (on_fst (read_usize_from R)) (\<lambda>count.
     and_then (ensure (count \<le> MAXIMUM_QUERY_VALID_PATHS) invalid_query_valid_paths) (\<lambda>_.
     case checked_mul count size_of_vec of
       None \<Rightarrow> fail_with invalid_query_valid_paths
     | Some bytes \<Rightarrow>
         and_then (charge_run bytes invalid_query_valid_paths) (\<lambda>collection_charge.
         and_then (read_distinct (read_query_valid_path R) invalid_query_valid_paths count []) (\<lambda>paths.
         and_then (read_substitute R version) (\<lambda>substitute.
         ok \<lparr>qvr_paths = map fst paths, qvr_substitute = substitute,
             qvr_collection_charge = collection_charge, qvr_value_charges = map snd paths\<rparr>)))))"

definition complete_query_valid_paths ::
  "'s worker_input \<Rightarrow> worker_version \<Rightarrow> (io_error, query_valid_paths_request, 's \<times> budget) run" where
  "complete_query_valid_paths R version =
     and_then (read_query_valid_paths R version) (\<lambda>request.
     and_then (complete_run R) (\<lambda>_. ok request))"

definition read_derived_path :: "'s worker_input \<Rightarrow> (io_error, bytes \<times> charge, 's \<times> budget) run" where
  "read_derived_path R =
     and_then (read_worker_byte_string_with_charge_from R
        (MAXIMUM_WORKER_STORE_PATH_BYTES + 1 + MAXIMUM_BUILD_DERIVATION_OUTPUT_NAME_BYTES)) (\<lambda>(target, c).
     and_then (lift_result (validate_derived_path target)) (\<lambda>_. ok (target, c)))"

definition read_derived_paths :: "'s worker_input \<Rightarrow> (io_error, query_missing_request, 's \<times> budget) run" where
  "read_derived_paths R =
     and_then (on_fst (read_usize_from R)) (\<lambda>count.
     and_then (ensure (count \<le> MAXIMUM_QUERY_VALID_PATHS)
       (invalid_data (''QueryMissing count exceeds limit: '' @ show_nat count))) (\<lambda>_.
     case checked_mul count size_of_vec of
       None \<Rightarrow> fail_with invalid_query_missing_request
     | Some bytes \<Rightarrow>
         and_then (charge_run bytes invalid_query_missing_request) (\<lambda>collection_charge.
         and_then (read_distinct (read_derived_path R)
            (invalid_data ''duplicate QueryMissing target'') count []) (\<lambda>targets.
         ok \<lparr>qmr_targets = map fst targets, qmr_collection_charge = collection_charge,
             qmr_value_charges = map snd targets\<rparr>))))"

definition complete_query_missing :: "'s worker_input \<Rightarrow> (io_error, query_missing_request, 's \<times> budget) run" where
  "complete_query_missing R =
     and_then (read_derived_paths R) (\<lambda>request.
     and_then (no_unread_data R (invalid_data ''trailing QueryMissing request data'')) (\<lambda>_.
     and_then (complete_run R) (\<lambda>_. ok request)))"

definition read_build_paths_with_results ::
  "'s worker_input \<Rightarrow> (io_error, build_paths_with_results_request, 's \<times> budget) run" where
  "read_build_paths_with_results R =
     and_then (read_derived_paths R) (\<lambda>missing.
     and_then (on_fst (read_worker_integer_from R)) (\<lambda>build_mode.
     and_then (ensure (build_mode \<le> 2) (invalid_data ''invalid BuildPathsWithResults request'')) (\<lambda>_.
     ok \<lparr>bpr_targets = qmr_targets missing, bpr_build_mode = build_mode,
         bpr_collection_charge = qmr_collection_charge missing,
         bpr_value_charges = qmr_value_charges missing\<rparr>)))"

definition complete_build_paths_with_results ::
  "'s worker_input \<Rightarrow> (io_error, build_paths_with_results_request, 's \<times> budget) run" where
  "complete_build_paths_with_results R =
     and_then (read_build_paths_with_results R) (\<lambda>request.
     and_then (no_unread_data R (invalid_data ''trailing BuildPathsWithResults request data'')) (\<lambda>_.
     and_then (complete_run R) (\<lambda>_. ok request)))"

section \<open>Build derivation requests\<close>

definition invalid_build_derivation :: "string \<Rightarrow> io_error" where
  "invalid_build_derivation stage = invalid_data (''invalid BuildDerivation request at '' @ stage)"

definition invalid_build_request :: io_error where
  "invalid_build_request = invalid_build_derivation ''invalid BuildDerivation request''"

text \<open>\<^verbatim>\<open>size_of\<close> of a \<^verbatim>\<open>BuildDerivationOutput\<close> (five vectors) and of a pair of vectors.\<close>

definition size_of_build_derivation_output :: nat where
  "size_of_build_derivation_output = 5 * size_of_vec"

definition size_of_vec_pair :: nat where
  "size_of_vec_pair = 2 * size_of_vec"

definition read_build_count ::
  "'s worker_input \<Rightarrow> nat \<Rightarrow> nat \<Rightarrow> (io_error, nat \<times> charge, 's \<times> budget) run" where
  "read_build_count R maximum element_size =
     and_then (on_fst (read_usize_from R)) (\<lambda>count.
     and_then (ensure (count \<le> maximum) (invalid_data ''invalid BuildDerivation request'')) (\<lambda>_.
     case checked_mul count element_size of
       None \<Rightarrow> fail_with (invalid_data ''invalid BuildDerivation request'')
     | Some bytes \<Rightarrow>
         and_then (charge_run bytes (invalid_data ''invalid BuildDerivation request'')) (\<lambda>c.
         ok (count, c))))"

definition read_build_string :: "'s worker_input \<Rightarrow> nat \<Rightarrow> (io_error, bytes \<times> charge, 's \<times> budget) run" where
  "read_build_string R maximum = read_worker_byte_string_with_charge_from R maximum"

definition read_build_output ::
  "'s worker_input \<Rightarrow> build_derivation_output list \<Rightarrow> (io_error, build_derivation_output, 's \<times> budget) run" where
  "read_build_output R seen =
     and_then (read_build_string R MAXIMUM_BUILD_DERIVATION_OUTPUT_NAME_BYTES) (\<lambda>(name, name_charge).
     and_then (ensure (name \<noteq> [] \<and> 0 \<notin> set name \<and> name \<notin> bdo_name ` set seen) invalid_build_request) (\<lambda>_.
     and_then (read_build_string R MAXIMUM_WORKER_STORE_PATH_BYTES) (\<lambda>(path, path_charge).
     and_then (lift_result (result_map_err (\<lambda>_. invalid_build_request) (validate_build_store_path path))) (\<lambda>_.
     and_then (ensure (path \<notin> bdo_path ` set seen) invalid_build_request) (\<lambda>_.
     and_then (read_build_string R MAXIMUM_BUILD_DERIVATION_HASH_ALGORITHM_BYTES) (\<lambda>(algorithm, algorithm_charge).
     and_then (read_build_string R MAXIMUM_BUILD_DERIVATION_HASH_BYTES) (\<lambda>(hash, hash_charge).
     and_then (lift_result (result_map_err (\<lambda>_. invalid_build_derivation ''output-authority'')
                 (validate_build_output_hash algorithm hash))) (\<lambda>_.
     ok \<lparr>bdo_name = name, bdo_path = path, bdo_hash_algorithm = algorithm, bdo_hash = hash,
         bdo_charges = [name_charge, path_charge, algorithm_charge, hash_charge]\<rparr>))))))))"

primrec read_build_outputs ::
  "'s worker_input \<Rightarrow> nat \<Rightarrow> build_derivation_output list \<Rightarrow> (io_error, build_derivation_output list, 's \<times> budget) run" where
  "read_build_outputs R 0 seen = ok []"
| "read_build_outputs R (Suc n) seen =
     and_then (read_build_output R seen) (\<lambda>output.
     and_then (read_build_outputs R n (seen @ [output])) (\<lambda>rest. ok (output # rest)))"

definition read_build_input_source :: "'s worker_input \<Rightarrow> (io_error, bytes \<times> charge, 's \<times> budget) run" where
  "read_build_input_source R =
     and_then (read_build_string R MAXIMUM_WORKER_STORE_PATH_BYTES) (\<lambda>(path, c).
     and_then (lift_result (result_map_err (\<lambda>_. invalid_build_request) (validate_build_store_path path))) (\<lambda>_.
     ok (path, c)))"

definition read_build_argument :: "'s worker_input \<Rightarrow> (io_error, bytes \<times> charge, 's \<times> budget) run" where
  "read_build_argument R =
     and_then (read_build_string R MAXIMUM_BUILD_DERIVATION_ARGUMENT_BYTES) (\<lambda>(value, c).
     and_then (ensure (0 \<notin> set value) invalid_build_request) (\<lambda>_. ok (value, c)))"

definition read_build_variable ::
  "'s worker_input \<Rightarrow> bytes list \<Rightarrow> (io_error, (bytes \<times> bytes) \<times> charge list, 's \<times> budget) run" where
  "read_build_variable R seen =
     and_then (read_build_string R MAXIMUM_BUILD_DERIVATION_ENVIRONMENT_KEY_BYTES) (\<lambda>(key, key_charge).
     and_then (ensure (key \<noteq> [] \<and> 0 \<notin> set key \<and> 0x3D \<notin> set key \<and> key \<notin> set seen) invalid_build_request) (\<lambda>_.
     and_then (read_build_string R MAXIMUM_BUILD_DERIVATION_ENVIRONMENT_VALUE_BYTES) (\<lambda>(value, value_charge).
     and_then (ensure (0 \<notin> set value) invalid_build_request) (\<lambda>_.
     ok ((key, value), [key_charge, value_charge])))))"

primrec read_build_environment ::
  "'s worker_input \<Rightarrow> nat \<Rightarrow> bytes list \<Rightarrow> (io_error, ((bytes \<times> bytes) \<times> charge list) list, 's \<times> budget) run" where
  "read_build_environment R 0 seen = ok []"
| "read_build_environment R (Suc n) seen =
     and_then (read_build_variable R seen) (\<lambda>variable.
     and_then (read_build_environment R n (seen @ [fst (fst variable)])) (\<lambda>rest. ok (variable # rest)))"

definition read_build_derivation :: "'s worker_input \<Rightarrow> (io_error, build_derivation_request, 's \<times> budget) run" where
  "read_build_derivation R =
     and_then (map_err (\<lambda>_. invalid_build_derivation ''derivation-path-read'')
        (read_build_string R MAXIMUM_WORKER_STORE_PATH_BYTES)) (\<lambda>(drv_path, drv_charge).
     and_then (lift_result (result_map_err (\<lambda>_. invalid_build_derivation ''derivation-path'')
        (validate_build_store_path drv_path))) (\<lambda>_.
     and_then (ensure (ends_with drv_path (ascii ''.drv'')) (invalid_build_derivation ''derivation-suffix'')) (\<lambda>_.
     and_then (read_build_count R MAXIMUM_BUILD_DERIVATION_OUTPUTS size_of_build_derivation_output)
        (\<lambda>(output_count, output_collection_charge).
     and_then (read_build_outputs R output_count []) (\<lambda>outputs.
     and_then (read_build_count R MAXIMUM_BUILD_DERIVATION_INPUT_SOURCES size_of_vec)
        (\<lambda>(input_count, input_collection_charge).
     and_then (read_distinct (read_build_input_source R) invalid_build_request input_count []) (\<lambda>inputs.
     and_then (read_build_string R MAXIMUM_BUILD_DERIVATION_PLATFORM_BYTES) (\<lambda>(platform, platform_charge).
     and_then (ensure (platform \<noteq> [] \<and> 0 \<notin> set platform) invalid_build_request) (\<lambda>_.
     and_then (read_build_string R MAXIMUM_BUILD_DERIVATION_BUILDER_BYTES) (\<lambda>(builder, builder_charge).
     and_then (ensure (builder \<noteq> [] \<and> 0 \<notin> set builder) invalid_build_request) (\<lambda>_.
     and_then (read_build_count R MAXIMUM_BUILD_DERIVATION_ARGUMENTS size_of_vec)
        (\<lambda>(argument_count, argument_collection_charge).
     and_then (repeat_run argument_count (read_build_argument R)) (\<lambda>arguments.
     and_then (read_build_count R MAXIMUM_BUILD_DERIVATION_ENVIRONMENT size_of_vec_pair)
        (\<lambda>(environment_count, environment_collection_charge).
     and_then (read_build_environment R environment_count []) (\<lambda>environment.
     and_then (map_err (\<lambda>_. invalid_build_derivation ''build-mode-read'')
        (on_fst (read_worker_integer_from R))) (\<lambda>build_mode.
     and_then (ensure (build_mode = 0) (invalid_input ''invalid BuildDerivation request'')) (\<lambda>_.
     ok \<lparr>bdr_drv_path = drv_path, bdr_outputs = outputs, bdr_input_sources = map fst inputs,
         bdr_platform = platform, bdr_builder = builder, bdr_arguments = map fst arguments,
         bdr_environment = map fst environment, bdr_build_mode = build_mode,
         bdr_collection_charges = [output_collection_charge, input_collection_charge,
           argument_collection_charge, environment_collection_charge],
         bdr_string_charges = [drv_charge, platform_charge, builder_charge] @
           map snd inputs @ map snd arguments @ concat (map snd environment)\<rparr>)))))))))))))))))"

definition complete_build_derivation :: "'s worker_input \<Rightarrow> (io_error, build_derivation_request, 's \<times> budget) run" where
  "complete_build_derivation R =
     and_then (read_build_derivation R) (\<lambda>request.
     and_then (no_unread_data R invalid_build_request) (\<lambda>_.
     and_then (complete_run R) (\<lambda>_. ok request)))"

definition drop_build_derivation_request :: "build_derivation_request \<Rightarrow> budget \<Rightarrow> budget" where
  "drop_build_derivation_request r =
     drop_charges (concat (map bdo_charges (bdr_outputs r)) @ bdr_collection_charges r @ bdr_string_charges r)"

section \<open>Formats\<close>

definition enc_list :: "('a \<Rightarrow> bytes) \<Rightarrow> 'a list \<Rightarrow> bytes" where
  "enc_list enc xs = enc_integer (of_nat (length xs)) @ concat (map enc xs)"

definition framed :: "bytes \<Rightarrow> nat" where
  "framed v = framed_length (length v)"

definition store_path_request_valid :: "store_path_request \<Rightarrow> bool" where
  "store_path_request_valid r \<longleftrightarrow> is_store_path (spr_path r) \<and> spr_charge r = framed (spr_path r)"

definition enc_substitute :: "worker_version \<Rightarrow> bool \<Rightarrow> bytes" where
  "enc_substitute version s =
     (if WorkerVersion 1 27 \<le> version then enc_integer (if s then 1 else 0) else [])"

definition enc_query_valid_paths :: "worker_version \<Rightarrow> query_valid_paths_request \<Rightarrow> bytes" where
  "enc_query_valid_paths version r =
     enc_list enc_byte_string (qvr_paths r) @ enc_substitute version (qvr_substitute r)"

definition query_valid_paths_valid :: "worker_version \<Rightarrow> query_valid_paths_request \<Rightarrow> bool" where
  "query_valid_paths_valid version r \<longleftrightarrow>
     length (qvr_paths r) \<le> MAXIMUM_QUERY_VALID_PATHS \<and> (\<forall>p\<in>set (qvr_paths r). is_store_path p) \<and>
     distinct (qvr_paths r) \<and> (qvr_substitute r \<longrightarrow> WorkerVersion 1 27 \<le> version) \<and>
     qvr_collection_charge r = length (qvr_paths r) * size_of_vec \<and>
     qvr_value_charges r = map framed (qvr_paths r)"

definition query_valid_paths_cost :: "query_valid_paths_request \<Rightarrow> nat" where
  "query_valid_paths_cost r = qvr_collection_charge r + sum_list (qvr_value_charges r)"

definition is_derived_path :: "bytes \<Rightarrow> bool" where
  "is_derived_path t \<longleftrightarrow> validate_derived_path t = Inr () \<and>
     length t \<le> MAXIMUM_WORKER_STORE_PATH_BYTES + 1 + MAXIMUM_BUILD_DERIVATION_OUTPUT_NAME_BYTES"

definition query_missing_valid :: "query_missing_request \<Rightarrow> bool" where
  "query_missing_valid r \<longleftrightarrow>
     length (qmr_targets r) \<le> MAXIMUM_QUERY_VALID_PATHS \<and> (\<forall>t\<in>set (qmr_targets r). is_derived_path t) \<and>
     distinct (qmr_targets r) \<and> qmr_collection_charge r = length (qmr_targets r) * size_of_vec \<and>
     qmr_value_charges r = map framed (qmr_targets r)"

definition query_missing_cost :: "query_missing_request \<Rightarrow> nat" where
  "query_missing_cost r = qmr_collection_charge r + sum_list (qmr_value_charges r)"

definition missing_part :: "build_paths_with_results_request \<Rightarrow> query_missing_request" where
  "missing_part r = \<lparr>qmr_targets = bpr_targets r, qmr_collection_charge = bpr_collection_charge r,
     qmr_value_charges = bpr_value_charges r\<rparr>"

definition build_paths_valid :: "build_paths_with_results_request \<Rightarrow> bool" where
  "build_paths_valid r \<longleftrightarrow> query_missing_valid (missing_part r) \<and> bpr_build_mode r \<le> 2"

definition enc_build_paths :: "build_paths_with_results_request \<Rightarrow> bytes" where
  "enc_build_paths r = enc_list enc_byte_string (bpr_targets r) @ enc_integer (bpr_build_mode r)"

definition build_output_strings :: "build_derivation_output \<Rightarrow> bytes list" where
  "build_output_strings out = [bdo_name out, bdo_path out, bdo_hash_algorithm out, bdo_hash out]"

definition build_output_valid :: "build_derivation_output \<Rightarrow> bool" where
  "build_output_valid out \<longleftrightarrow>
     bdo_name out \<noteq> [] \<and> 0 \<notin> set (bdo_name out) \<and>
     length (bdo_name out) \<le> MAXIMUM_BUILD_DERIVATION_OUTPUT_NAME_BYTES \<and>
     is_store_path (bdo_path out) \<and>
     length (bdo_hash_algorithm out) \<le> MAXIMUM_BUILD_DERIVATION_HASH_ALGORITHM_BYTES \<and>
     length (bdo_hash out) \<le> MAXIMUM_BUILD_DERIVATION_HASH_BYTES \<and>
     validate_build_output_hash (bdo_hash_algorithm out) (bdo_hash out) = Inr () \<and>
     bdo_charges out = map framed (build_output_strings out)"

definition enc_build_output :: "build_derivation_output \<Rightarrow> bytes" where
  "enc_build_output out = concat (map enc_byte_string (build_output_strings out))"

definition build_output_cost :: "build_derivation_output \<Rightarrow> nat" where
  "build_output_cost out = sum_list (bdo_charges out)"

definition argument_valid :: "bytes \<Rightarrow> bool" where
  "argument_valid v \<longleftrightarrow> 0 \<notin> set v \<and> length v \<le> MAXIMUM_BUILD_DERIVATION_ARGUMENT_BYTES"

definition variable_valid :: "bytes \<times> bytes \<Rightarrow> bool" where
  "variable_valid kv \<longleftrightarrow>
     fst kv \<noteq> [] \<and> 0 \<notin> set (fst kv) \<and> 0x3D \<notin> set (fst kv) \<and>
     length (fst kv) \<le> MAXIMUM_BUILD_DERIVATION_ENVIRONMENT_KEY_BYTES \<and>
     0 \<notin> set (snd kv) \<and> length (snd kv) \<le> MAXIMUM_BUILD_DERIVATION_ENVIRONMENT_VALUE_BYTES"

definition enc_variable :: "bytes \<times> bytes \<Rightarrow> bytes" where
  "enc_variable kv = enc_byte_string (fst kv) @ enc_byte_string (snd kv)"

definition word_valid :: "nat \<Rightarrow> bytes \<Rightarrow> bool" where
  "word_valid k v \<longleftrightarrow> v \<noteq> [] \<and> 0 \<notin> set v \<and> length v \<le> k"

definition build_derivation_valid :: "build_derivation_request \<Rightarrow> bool" where
  "build_derivation_valid r \<longleftrightarrow>
     is_store_path (bdr_drv_path r) \<and> ends_with (bdr_drv_path r) (ascii ''.drv'') \<and>
     length (bdr_outputs r) \<le> MAXIMUM_BUILD_DERIVATION_OUTPUTS \<and>
     (\<forall>out\<in>set (bdr_outputs r). build_output_valid out) \<and>
     distinct (map bdo_name (bdr_outputs r)) \<and> distinct (map bdo_path (bdr_outputs r)) \<and>
     length (bdr_input_sources r) \<le> MAXIMUM_BUILD_DERIVATION_INPUT_SOURCES \<and>
     (\<forall>p\<in>set (bdr_input_sources r). is_store_path p) \<and> distinct (bdr_input_sources r) \<and>
     word_valid MAXIMUM_BUILD_DERIVATION_PLATFORM_BYTES (bdr_platform r) \<and>
     word_valid MAXIMUM_BUILD_DERIVATION_BUILDER_BYTES (bdr_builder r) \<and>
     length (bdr_arguments r) \<le> MAXIMUM_BUILD_DERIVATION_ARGUMENTS \<and>
     (\<forall>v\<in>set (bdr_arguments r). argument_valid v) \<and>
     length (bdr_environment r) \<le> MAXIMUM_BUILD_DERIVATION_ENVIRONMENT \<and>
     (\<forall>kv\<in>set (bdr_environment r). variable_valid kv) \<and> distinct (map fst (bdr_environment r)) \<and>
     bdr_build_mode r = 0 \<and>
     bdr_collection_charges r =
       [length (bdr_outputs r) * size_of_build_derivation_output, length (bdr_input_sources r) * size_of_vec,
        length (bdr_arguments r) * size_of_vec, length (bdr_environment r) * size_of_vec_pair] \<and>
     bdr_string_charges r =
       [framed (bdr_drv_path r), framed (bdr_platform r), framed (bdr_builder r)] @
       map framed (bdr_input_sources r) @ map framed (bdr_arguments r) @
       concat (map (\<lambda>kv. [framed (fst kv), framed (snd kv)]) (bdr_environment r))"

definition enc_build_derivation :: "build_derivation_request \<Rightarrow> bytes" where
  "enc_build_derivation r =
     enc_byte_string (bdr_drv_path r) @ enc_list enc_build_output (bdr_outputs r) @
     enc_list enc_byte_string (bdr_input_sources r) @ enc_byte_string (bdr_platform r) @
     enc_byte_string (bdr_builder r) @ enc_list enc_byte_string (bdr_arguments r) @
     enc_list enc_variable (bdr_environment r) @ enc_integer (bdr_build_mode r)"

definition build_derivation_cost :: "build_derivation_request \<Rightarrow> nat" where
  "build_derivation_cost r =
     sum_list (map build_output_cost (bdr_outputs r)) + sum_list (bdr_collection_charges r) +
     sum_list (bdr_string_charges r)"

section \<open>Decoders and formats\<close>

lemma count_bounds [simp]:
  "n \<le> 65536 \<Longrightarrow> n < usize_limit" "n \<le> 65536 \<Longrightarrow> n * size_of_vec < usize_limit"
  "n \<le> 65536 \<Longrightarrow> n * size_of_vec_pair < usize_limit"
  "n \<le> 65536 \<Longrightarrow> n * size_of_build_derivation_output < usize_limit"
  by (simp_all add: usize_limit_def size_of_vec_def size_of_vec_pair_def size_of_build_derivation_output_def)

lemma sum_list_pairs: "sum_list (concat (map (\<lambda>x. [f x, g x]) xs)) = sum_list (map (\<lambda>x. f x + g x :: nat) xs)"
  by (induction xs) auto

lemma ex_query_missing_request:
  "(\<exists>r :: query_missing_request. P r) \<longleftrightarrow>
   (\<exists>t c v. P \<lparr>qmr_targets = t, qmr_collection_charge = c, qmr_value_charges = v\<rparr>)"
  by (metis query_missing_request.cases)

lemma store_path_length [simp]: "is_store_path p \<Longrightarrow> length p \<le> 222"
  by (auto simp: store_path_shape_def limit_defs NIX_STORE_DIRECTORY_def)

lemma store_path_framed [simp]: "is_store_path p \<Longrightarrow> framed_length (length p) < usize_limit"
  by (rule framed_length_less, rule order_trans [OF store_path_length]) simp_all

lemma max_store_path: "MAXIMUM_WORKER_STORE_PATH_BYTES = 222"
  by (simp add: limit_defs NIX_STORE_DIRECTORY_def)

context byte_source
begin

lemma decodes_distinct:
  assumes "decodes reads item
    (\<lambda>p bs n. (valid (fst p) \<and> snd p = cost (fst p)) \<and> bs = enc (fst p) \<and> n = cost (fst p))"
  shows "decodes reads (read_distinct item e k seen) (\<lambda>ps bs n. \<exists>vs. length vs = k \<and>
    (\<forall>v\<in>set vs. valid v) \<and> distinct vs \<and> set vs \<inter> set seen = {} \<and>
    ps = map (\<lambda>v. (v, cost v)) vs \<and> bs = concat (map enc vs) \<and> n = sum_list (map cost vs))"
proof (induction k arbitrary: seen)
  case 0
  show ?case unfolding read_distinct.simps by (rule decodes_cong [OF decodes_ok]) auto
next
  case (Suc k)
  have rest: "decodes reads (and_then (read_distinct item e k s) (\<lambda>r. ok (p # r))) (\<lambda>ps bs n. \<exists>vs. length vs = k \<and>
    (\<forall>v\<in>set vs. valid v) \<and> distinct vs \<and> set vs \<inter> set s = {} \<and>
    ps = p # map (\<lambda>v. (v, cost v)) vs \<and> bs = concat (map enc vs) \<and> n = sum_list (map cost vs))" for s p
    by (rule decodes_cong [OF decodes_and_then [OF Suc decodes_ok]]) auto
  show ?case unfolding read_distinct.simps
  proof (rule decodes_cong, (rule assms rest decodes_rule)+, goal_cases)
    case (1 ps bs n)
    show ?case by (simp add: ex_length_Suc) (auto; blast)
  qed
qed

lemma decodes_and_then_distinct:
  assumes "decodes reads item
      (\<lambda>p bs n. (valid (fst p) \<and> snd p = cost (fst p)) \<and> bs = enc (fst p) \<and> n = cost (fst p))"
    and "\<And>ps. decodes reads (h ps) (Q ps)"
  shows "decodes reads (and_then (read_distinct item e k []) h) (\<lambda>y bs n. \<exists>vs b2 n2. length vs = k \<and>
    (\<forall>v\<in>set vs. valid v) \<and> distinct vs \<and> Q (map (\<lambda>v. (v, cost v)) vs) y b2 n2 \<and>
    bs = concat (map enc vs) @ b2 \<and> n = sum_list (map cost vs) + n2)"
proof -
  have "decodes reads (read_distinct item e k []) (\<lambda>ps bs n. \<exists>vs. length vs = k \<and>
    (\<forall>v\<in>set vs. valid v) \<and> distinct vs \<and>
    ps = map (\<lambda>v. (v, cost v)) vs \<and> bs = concat (map enc vs) \<and> n = sum_list (map cost vs))"
    by (rule decodes_cong [OF decodes_distinct [OF assms(1)]]) simp
  then show ?thesis
    by (rule decodes_cong [OF decodes_and_then [OF _ assms(2)]]) blast
qed

lemma decodes_store_path_request [decodes_rule]:
  "decodes reads (read_store_path_request R)
     (\<lambda>r bs n. store_path_request_valid r \<and> bs = enc_byte_string (spr_path r) \<and> n = spr_charge r)"
  unfolding read_store_path_request_def
proof (rule decodes_cong, (rule decodes_rule)+, goal_cases)
  case (1 r bs n)
  show ?case
    by (cases r) (auto simp: store_path_request_valid_def validate_store_path_iff framed_def max_store_path)
qed

lemma decodes_boolean:
  "decodes reads (and_then (on_fst (read_worker_integer_from R))
       (\<lambda>w. if w = 0 then ok False else if w = 1 then ok True else fail_with e))
     (\<lambda>b bs n. bs = enc_integer (if b then 1 else 0) \<and> n = 0)"
proof (rule decodes_cong, (rule decodes_rule)+, goal_cases)
  case (1 b bs n)
  show ?case by (cases b) (auto intro: exI [of _ "1 :: u64"] exI [of _ "0 :: u64"] split: if_splits)
qed

lemma decodes_query_valid_path:
  "decodes reads (read_query_valid_path R)
     (\<lambda>p bs n. (is_store_path (fst p) \<and> snd p = framed (fst p)) \<and>
        bs = enc_byte_string (fst p) \<and> n = framed (fst p))"
  unfolding read_query_valid_path_def
  by (rule decodes_cong, (rule decodes_rule)+)
     (auto simp: validate_store_path_iff framed_def max_store_path)

lemma decodes_substitute [decodes_rule]:
  "decodes reads (read_substitute R version)
     (\<lambda>s bs n. (s \<longrightarrow> WorkerVersion 1 27 \<le> version) \<and> bs = enc_substitute version s \<and> n = 0)"
  unfolding read_substitute_def
  by (rule decodes_cong, (rule decodes_boolean decodes_rule)+) (auto simp: enc_substitute_def)

lemma decodes_query_valid_paths [decodes_rule]:
  "decodes reads (read_query_valid_paths R version)
     (\<lambda>r bs n. query_valid_paths_valid version r \<and> bs = enc_query_valid_paths version r \<and>
        n = query_valid_paths_cost r)"
  unfolding read_query_valid_paths_def
proof (rule decodes_cong, (rule decodes_and_then_distinct [OF decodes_query_valid_path] decodes_rule)+, goal_cases)
  case (1 r bs n)
  show ?case
    by (cases r) (auto simp: query_valid_paths_valid_def query_valid_paths_cost_def enc_query_valid_paths_def
        enc_list_def limit_defs size_of_vec_def usize_limit_def comp_def)
qed

lemma decodes_derived_path:
  "decodes reads (read_derived_path R)
     (\<lambda>p bs n. (is_derived_path (fst p) \<and> snd p = framed (fst p)) \<and>
        bs = enc_byte_string (fst p) \<and> n = framed (fst p))"
  unfolding read_derived_path_def
  by (rule decodes_cong, (rule decodes_rule)+)
     (auto simp: is_derived_path_def framed_def max_store_path limit_defs)

lemma decodes_derived_paths [decodes_rule]:
  "decodes reads (read_derived_paths R)
     (\<lambda>r bs n. query_missing_valid r \<and> bs = enc_list enc_byte_string (qmr_targets r) \<and>
        n = query_missing_cost r)"
  unfolding read_derived_paths_def
proof (rule decodes_cong, (rule decodes_and_then_distinct [OF decodes_derived_path] decodes_rule)+, goal_cases)
  case (1 r bs n)
  show ?case
    by (cases r) (auto simp: query_missing_valid_def query_missing_cost_def
        enc_list_def limit_defs size_of_vec_def usize_limit_def comp_def)
qed

lemma decodes_build_paths_with_results [decodes_rule]:
  "decodes reads (read_build_paths_with_results R)
     (\<lambda>r bs n. build_paths_valid r \<and> bs = enc_build_paths r \<and>
        n = bpr_collection_charge r + sum_list (bpr_value_charges r))"
  unfolding read_build_paths_with_results_def
proof (rule decodes_cong, (rule decodes_rule)+, goal_cases)
  case (1 r bs n)
  show ?case
    by (cases r) (auto simp: build_paths_valid_def enc_build_paths_def missing_part_def
        query_missing_cost_def ex_query_missing_request)
qed

lemma decodes_build_string [decodes_rule]:
  "decodes reads (read_build_string R k)
     (\<lambda>p bs n. length (fst p) \<le> k \<and> framed_length (length (fst p)) < usize_limit \<and>
        snd p = framed (fst p) \<and> bs = enc_byte_string (fst p) \<and> n = snd p)"
  unfolding read_build_string_def framed_def by (rule decodes_byte_string)

lemma decodes_build_count [decodes_rule]:
  "decodes reads (read_build_count R k sz)
     (\<lambda>p bs n. fst p \<le> k \<and> fst p < usize_limit \<and> snd p = fst p * sz \<and> fst p * sz < usize_limit \<and>
        bs = enc_integer (of_nat (fst p)) \<and> n = snd p)"
  unfolding read_build_count_def
  by (rule decodes_cong, (rule decodes_rule)+) auto

lemma decodes_build_output:
  "decodes reads (read_build_output R seen)
     (\<lambda>out bs n. (build_output_valid out \<and> bdo_name out \<notin> bdo_name ` set seen \<and>
        bdo_path out \<notin> bdo_path ` set seen) \<and> bs = enc_build_output out \<and> n = build_output_cost out)"
  unfolding read_build_output_def
proof (rule decodes_cong, (rule decodes_rule)+, goal_cases)
  case (1 out bs n)
  show ?case
    by (cases out) (auto simp: build_output_valid_def enc_build_output_def build_output_cost_def
        build_output_strings_def validate_build_store_path_iff framed_def max_store_path limit_defs)
qed

lemma decodes_build_outputs:
  "decodes reads (read_build_outputs R k seen)
     (\<lambda>outs bs n. length outs = k \<and> (\<forall>out\<in>set outs. build_output_valid out) \<and>
        distinct (map bdo_name outs) \<and> bdo_name ` set outs \<inter> bdo_name ` set seen = {} \<and>
        distinct (map bdo_path outs) \<and> bdo_path ` set outs \<inter> bdo_path ` set seen = {} \<and>
        bs = concat (map enc_build_output outs) \<and> n = sum_list (map build_output_cost outs))"
proof (induction k arbitrary: seen)
  case 0
  show ?case unfolding read_build_outputs.simps by (rule decodes_cong [OF decodes_ok]) auto
next
  case (Suc k)
  show ?case unfolding read_build_outputs.simps
  proof (rule decodes_cong, (rule decodes_build_output Suc decodes_rule)+, goal_cases)
    case (1 outs bs n)
    show ?case by (cases outs) auto
  qed
qed

lemma decodes_build_input_source:
  "decodes reads (read_build_input_source R)
     (\<lambda>p bs n. (is_store_path (fst p) \<and> snd p = framed (fst p)) \<and>
        bs = enc_byte_string (fst p) \<and> n = framed (fst p))"
  unfolding read_build_input_source_def
  by (rule decodes_cong, (rule decodes_rule)+)
     (auto simp: validate_build_store_path_iff framed_def max_store_path)

lemma decodes_build_argument:
  "decodes reads (read_build_argument R)
     (\<lambda>p bs n. (argument_valid (fst p) \<and> snd p = framed (fst p)) \<and>
        bs = enc_byte_string (fst p) \<and> n = framed (fst p))"
  unfolding read_build_argument_def
  by (rule decodes_cong, (rule decodes_rule)+) (auto simp: argument_valid_def framed_def limit_defs)

lemma decodes_build_variable:
  "decodes reads (read_build_variable R seen)
     (\<lambda>p bs n. (variable_valid (fst p) \<and> fst (fst p) \<notin> set seen \<and>
          snd p = [framed (fst (fst p)), framed (snd (fst p))]) \<and>
        bs = enc_variable (fst p) \<and> n = framed (fst (fst p)) + framed (snd (fst p)))"
  unfolding read_build_variable_def
  by (rule decodes_cong, (rule decodes_rule)+)
     (auto simp: variable_valid_def enc_variable_def framed_def limit_defs)

lemma decodes_build_environment:
  "decodes reads (read_build_environment R k seen)
     (\<lambda>ps bs n. length ps = k \<and> (\<forall>p\<in>set ps. variable_valid (fst p) \<and>
          snd p = [framed (fst (fst p)), framed (snd (fst p))]) \<and>
        distinct (map (fst \<circ> fst) ps) \<and> (fst \<circ> fst) ` set ps \<inter> set seen = {} \<and>
        bs = concat (map (enc_variable \<circ> fst) ps) \<and>
        n = sum_list (map (\<lambda>p. framed (fst (fst p)) + framed (snd (fst p))) ps))"
proof (induction k arbitrary: seen)
  case 0
  show ?case unfolding read_build_environment.simps by (rule decodes_cong [OF decodes_ok]) auto
next
  case (Suc k)
  show ?case unfolding read_build_environment.simps
  proof (rule decodes_cong, (rule decodes_build_variable Suc decodes_rule)+, goal_cases)
    case (1 ps bs n)
    show ?case by (cases ps) (auto, force)
  qed
qed

lemma decodes_and_then_environment:
  assumes "\<And>ps. decodes reads (h ps) (Q ps)"
  shows "decodes reads (and_then (read_build_environment R k []) h) (\<lambda>y bs n. \<exists>kvs b2 n2.
    length kvs = k \<and> (\<forall>kv\<in>set kvs. variable_valid kv) \<and> distinct (map fst kvs) \<and>
    Q (map (\<lambda>kv. (kv, [framed (fst kv), framed (snd kv)])) kvs) y b2 n2 \<and>
    bs = concat (map enc_variable kvs) @ b2 \<and>
    n = sum_list (map (\<lambda>kv. framed (fst kv) + framed (snd kv)) kvs) + n2)"
proof (rule decodes_cong [OF decodes_and_then [OF decodes_build_environment assms]], goal_cases)
  case (1 y bs n)
  let ?f = "\<lambda>kv. (kv, [framed (fst kv), framed (snd kv)])"
  have iff: "(\<forall>p\<in>set ps. variable_valid (fst p) \<and> snd p = [framed (fst (fst p)), framed (snd (fst p))]) \<longleftrightarrow>
      (\<exists>kvs. (\<forall>kv\<in>set kvs. variable_valid kv) \<and> ps = map ?f kvs)" for ps
  proof
    assume "\<forall>p\<in>set ps. variable_valid (fst p) \<and> snd p = [framed (fst (fst p)), framed (snd (fst p))]"
    then show "\<exists>kvs. (\<forall>kv\<in>set kvs. variable_valid kv) \<and> ps = map ?f kvs"
      by (intro exI [of _ "map fst ps"]) (auto simp: prod_eq_iff intro!: nth_equalityI)
  qed auto
  show ?case unfolding iff
  proof (rule iffI, goal_cases)
    case 2
    then obtain kvs b2 n2 where "length kvs = k \<and> (\<forall>kv\<in>set kvs. variable_valid kv) \<and> distinct (map fst kvs) \<and>
      Q (map ?f kvs) y b2 n2 \<and> bs = concat (map enc_variable kvs) @ b2 \<and>
      n = sum_list (map (\<lambda>kv. framed (fst kv) + framed (snd kv)) kvs) + n2" by blast
    then show ?case by (intro exI [of _ "map ?f kvs"]) (auto simp: comp_def)
  qed (auto simp: comp_def)
qed

lemma decodes_build_derivation [decodes_rule]:
  "decodes reads (read_build_derivation R)
     (\<lambda>r bs n. build_derivation_valid r \<and> bs = enc_build_derivation r \<and> n = build_derivation_cost r)"
  unfolding read_build_derivation_def
proof (rule decodes_cong, (rule decodes_and_then_list [OF decodes_build_argument]
    decodes_and_then_distinct [OF decodes_build_input_source] decodes_and_then_environment
    decodes_build_outputs decodes_rule)+, goal_cases)
  case (1 r bs n)
  show ?case
    by (cases r; simp add: build_derivation_valid_def enc_build_derivation_def build_derivation_cost_def
        word_valid_def enc_list_def comp_def validate_build_store_path_iff max_store_path)
      (auto simp: limit_defs sum_list_pairs)
qed

end


text \<open>Requests as codecs, on the input of a session and on a slice.\<close>

interpretation session_build_derivation:
  wire_codec session_worker_input session_reads "read_build_derivation session_worker_input"
    enc_build_derivation build_derivation_cost build_derivation_valid
  by unfold_locales (rule session.decodes_build_derivation)

interpretation slice_build_derivation:
  wire_codec slice_input slice_reads "read_build_derivation slice_input"
    enc_build_derivation build_derivation_cost build_derivation_valid
  by unfold_locales (rule slice.decodes_build_derivation)

interpretation session_query_valid_paths:
  wire_codec session_worker_input session_reads "read_query_valid_paths session_worker_input version"
    "enc_query_valid_paths version" query_valid_paths_cost "query_valid_paths_valid version" for version
  by unfold_locales (rule session.decodes_query_valid_paths)

interpretation session_derived_paths:
  wire_codec session_worker_input session_reads "read_derived_paths session_worker_input"
    "\<lambda>r. enc_list enc_byte_string (qmr_targets r)" query_missing_cost query_missing_valid
  by unfold_locales (rule session.decodes_derived_paths)

interpretation slice_store_path:
  wire_codec slice_input slice_reads "read_store_path_request slice_input"
    "\<lambda>r. enc_byte_string (spr_path r)" spr_charge store_path_request_valid
  by unfold_locales (rule slice.decodes_store_path_request)

section \<open>A concrete request\<close>

definition example_drv_path :: bytes where
  "example_drv_path = ascii ''/nix/store/00000000000000000000000000000000-contract.drv''"

definition example_out_path :: bytes where
  "example_out_path = ascii ''/nix/store/11111111111111111111111111111111-contract''"

definition example_output :: build_derivation_output where
  "example_output = \<lparr>bdo_name = ascii ''out'', bdo_path = example_out_path, bdo_hash_algorithm = [],
     bdo_hash = [], bdo_charges = [8, 56, 0, 0]\<rparr>"

definition example_request :: build_derivation_request where
  "example_request = \<lparr>bdr_drv_path = example_drv_path, bdr_outputs = [example_output],
     bdr_input_sources = [example_out_path], bdr_platform = ascii ''x86_64-linux'',
     bdr_builder = ascii ''/bin/sh'', bdr_arguments = [ascii ''-c''],
     bdr_environment = [(ascii ''out'', example_out_path)], bdr_build_mode = 0,
     bdr_collection_charges = [120, 24, 24, 48], bdr_string_charges = [56, 16, 8, 56, 8, 8, 56]\<rparr>"

definition example_query :: query_valid_paths_request where
  "example_query = \<lparr>qvr_paths = [example_drv_path, example_out_path], qvr_substitute = True,
     qvr_collection_charge = 48, qvr_value_charges = [56, 56]\<rparr>"

definition example_budget :: budget where
  "example_budget = \<lparr>retained_bytes = 100, maximum_retained_bytes = 1000\<rparr>"

definition example_budget_after :: budget where
  "example_budget_after = \<lparr>retained_bytes = 588, maximum_retained_bytes = 1000\<rparr>"

lemma example_budget_ok: "budget_ok example_budget"
  by (simp add: example_budget_def budget_ok_def usize_limit_def)

lemma example_valid: "build_derivation_valid example_request"
  by code_simp

lemma example_charges:
  "charges example_budget (build_derivation_cost example_request) example_budget_after"
  by code_simp

lemma example_decoded:
  "complete_build_derivation session_worker_input
     (\<lparr>stream = enc_build_derivation example_request, message_in_progress = False\<rparr>, example_budget) =
     Inr (example_request, (\<lparr>stream = [], message_in_progress = False\<rparr>, example_budget_after))"
proof -
  have "read_build_derivation session_worker_input
     (\<lparr>stream = enc_build_derivation example_request, message_in_progress = False\<rparr>, example_budget) =
     Inr (example_request, (\<lparr>stream = [], message_in_progress = enc_build_derivation example_request \<noteq> []\<rparr>,
       example_budget_after))"
    using example_budget_ok example_valid example_charges
    by (simp add: session_build_derivation.dec_iff consumes_def session_reads_def)
  then show ?thesis
    by (simp add: complete_build_derivation_def and_then_def complete_run_def no_unread_data_def ok_def
        session_worker_input_def session_complete_message_def)
qed

section \<open>Properties\<close>

lemma complete_run_Inr [reader_iff]:
  "complete_run R st = Inr (u, st') \<longleftrightarrow> st' = (complete_message R (fst st), snd st)"
  by (auto simp: complete_run_def)

lemma no_unread_Inr [reader_iff]:
  "no_unread_data R e st = Inr (u, st') \<longleftrightarrow> \<not> has_unread_message_data R (fst st) \<and> st' = st"
  by (auto simp: no_unread_data_def)

text \<open>
  C4: On the input of a session, a BuildDerivation request is accepted exactly when the stream starts with
  the encoding of a well-formed request (store paths, bounded counts and strings, distinct outputs,
  inputs and variables, no NUL bytes, build mode zero) that fits the session budget. The decoder then
  consumes exactly that encoding, charges exactly its cost, and leaves no message in progress.
\<close>

theorem build_derivation_accepts_exactly:
  assumes "budget_ok b"
  shows "complete_build_derivation session_worker_input (s, b) = Inr (r, (s', b')) \<longleftrightarrow>
    build_derivation_valid r \<and> stream s = enc_build_derivation r @ stream s' \<and>
    \<not> message_in_progress s' \<and> charges b (build_derivation_cost r) b'"
proof -
  have "complete_build_derivation session_worker_input (s, b) = Inr (r, (s', b')) \<longleftrightarrow>
    (\<exists>st1. read_build_derivation session_worker_input (s, b) = Inr (r, st1) \<and>
       s' = complete_message session_worker_input (fst st1) \<and> b' = snd st1)"
    by (auto simp: complete_build_derivation_def reader_iff session_worker_input_def)
  also have "\<dots> \<longleftrightarrow> build_derivation_valid r \<and> charges b (build_derivation_cost r) b' \<and>
    (\<exists>s1. session_reads s (enc_build_derivation r) s1 \<and> s' = complete_message session_worker_input s1)"
    using assms by (auto simp: session_build_derivation.dec_iff consumes_def)
  finally show ?thesis by (auto simp: session_complete_reads)
qed

theorem build_derivation_accepts_exactly_witness:
  "budget_ok example_budget \<and>
   complete_build_derivation session_worker_input
     (\<lparr>stream = enc_build_derivation example_request, message_in_progress = False\<rparr>, example_budget) =
     Inr (example_request, (\<lparr>stream = [], message_in_progress = False\<rparr>, example_budget_after))"
  using build_derivation_accepts_exactly [OF example_budget_ok, of
      "\<lparr>stream = enc_build_derivation example_request, message_in_progress = False\<rparr>" example_request
      "\<lparr>stream = [], message_in_progress = False\<rparr>" example_budget_after]
    example_budget_ok example_valid example_charges by simp

text \<open>
  C25: Dropping an accepted BuildDerivation request returns the session budget to what it was before
  the request was read.
\<close>

theorem build_derivation_drop_restores:
  assumes "budget_ok b"
    and "complete_build_derivation session_worker_input (s, b) = Inr (r, (s', b'))"
  shows "drop_build_derivation_request r b' = b"
proof -
  obtain st1 where "read_build_derivation session_worker_input (s, b) = Inr (r, st1)" and "b' = snd st1"
    using assms(2) by (auto simp: complete_build_derivation_def reader_iff)
  then have "charges b (build_derivation_cost r) b'"
    using assms(1) by (auto simp: session_build_derivation.dec_iff consumes_def)
  moreover have "sum_list (concat (map bdo_charges outs)) = sum_list (map build_output_cost outs)" for outs
    by (induction outs) (auto simp: build_output_cost_def)
  ultimately show ?thesis
    unfolding drop_build_derivation_request_def
    by (intro charges_drop) (auto simp: build_derivation_cost_def ac_simps)
qed

theorem build_derivation_drop_restores_witness:
  "complete_build_derivation session_worker_input
     (\<lparr>stream = enc_build_derivation example_request, message_in_progress = False\<rparr>, example_budget) =
     Inr (example_request, (\<lparr>stream = [], message_in_progress = False\<rparr>, example_budget_after)) \<and>
   drop_build_derivation_request example_request example_budget_after = example_budget"
  using build_derivation_drop_restores [OF example_budget_ok example_decoded] example_decoded by blast

text \<open>
  C24: A QueryValidPaths request is accepted on the input of a session exactly when the stream starts
  with the encoding of at most 65536 distinct store paths and, from version 1.27, the substitute flag.
\<close>

theorem query_valid_paths_accepts_exactly:
  assumes "budget_ok b"
  shows "complete_query_valid_paths session_worker_input version (s, b) = Inr (r, (s', b')) \<longleftrightarrow>
    query_valid_paths_valid version r \<and> stream s = enc_query_valid_paths version r @ stream s' \<and>
    \<not> message_in_progress s' \<and> charges b (query_valid_paths_cost r) b'"
proof -
  have "complete_query_valid_paths session_worker_input version (s, b) = Inr (r, (s', b')) \<longleftrightarrow>
    (\<exists>st1. read_query_valid_paths session_worker_input version (s, b) = Inr (r, st1) \<and>
       s' = complete_message session_worker_input (fst st1) \<and> b' = snd st1)"
    by (auto simp: complete_query_valid_paths_def reader_iff)
  also have "\<dots> \<longleftrightarrow> query_valid_paths_valid version r \<and> charges b (query_valid_paths_cost r) b' \<and>
    (\<exists>s1. session_reads s (enc_query_valid_paths version r) s1 \<and> s' = complete_message session_worker_input s1)"
    using assms by (auto simp: session_query_valid_paths.dec_iff consumes_def)
  finally show ?thesis by (auto simp: session_complete_reads)
qed


theorem query_valid_paths_accepts_exactly_witness:
  "budget_ok example_budget \<and>
   complete_query_valid_paths session_worker_input (WorkerVersion 1 38)
     (\<lparr>stream = enc_query_valid_paths (WorkerVersion 1 38) example_query @ [7], message_in_progress = False\<rparr>,
      example_budget) =
   Inr (example_query, (\<lparr>stream = [7], message_in_progress = False\<rparr>,
      \<lparr>retained_bytes = 260, maximum_retained_bytes = 1000\<rparr>))"
proof -
  have "query_valid_paths_valid (WorkerVersion 1 38) example_query" by code_simp
  moreover have "charges example_budget (query_valid_paths_cost example_query)
      \<lparr>retained_bytes = 260, maximum_retained_bytes = 1000\<rparr>" by code_simp
  ultimately show ?thesis
    using query_valid_paths_accepts_exactly [OF example_budget_ok, of "WorkerVersion 1 38"
      "\<lparr>stream = enc_query_valid_paths (WorkerVersion 1 38) example_query @ [7], message_in_progress = False\<rparr>"
      example_query "\<lparr>stream = [7], message_in_progress = False\<rparr>"
      "\<lparr>retained_bytes = 260, maximum_retained_bytes = 1000\<rparr>"] example_budget_ok by simp
qed

end
