(* ===== verification/Stderr.thy ===== *)
theory Stderr
  imports Store_Path
begin

text \<open>
  Structured stderr frames. The server writes them (\<^verbatim>\<open>nix-worker-protocol/src/stderr.rs\<close>), the client
  skips or forwards them until the last one (\<^verbatim>\<open>read_operation_frames\<close> and
  \<^verbatim>\<open>read_build_operation_frames\<close> of \<^verbatim>\<open>client.rs\<close>). A frame parser is a run on any byte source; the
  loops run over the bytes a daemon sends and end because every frame consumes at least its tag.
\<close>

section \<open>Frames and their writers\<close>

datatype activity_field = IntegerField u64 | StringField bytes

datatype stderr_frame =
    Next bytes
  | StartActivity u64 u64 u64 bytes "activity_field list" u64
  | StopActivity u64
  | ResultFrame u64 u64 "activity_field list"
  | Last

definition field_too_long :: "activity_field \<Rightarrow> bool" where
  "field_too_long f =
     (case f of IntegerField v \<Rightarrow> False | StringField v \<Rightarrow> MAXIMUM_STRUCTURED_FRAME_FIELD_BYTES < length v)"

definition fields_exceed :: "activity_field list \<Rightarrow> bool" where
  "fields_exceed fs \<longleftrightarrow>
     MAXIMUM_STRUCTURED_FRAME_FIELDS < length fs \<or> list_ex field_too_long fs"

fun validate_stderr_frame :: "stderr_frame \<Rightarrow> protocol_error + unit" where
  "validate_stderr_frame (Next message) =
     (if MAXIMUM_STRUCTURED_FRAME_MESSAGE_BYTES < length message then Inl SizeLimit else Inr ())"
| "validate_stderr_frame (StartActivity i v t message fs p) =
     (if MAXIMUM_STRUCTURED_FRAME_MESSAGE_BYTES < length message \<or> fields_exceed fs
      then Inl SizeLimit else Inr ())"
| "validate_stderr_frame (StopActivity i) = Inr ()"
| "validate_stderr_frame (ResultFrame i t fs) =
     (if fields_exceed fs then Inl SizeLimit else Inr ())"
| "validate_stderr_frame Last = Inr ()"

definition frame_exceeds_limit :: io_error where
  "frame_exceeds_limit = invalid_input ''structured frame exceeds limit''"

primrec write_activity_field :: "activity_field \<Rightarrow> unit writer" where
  "write_activity_field (IntegerField v) =
     w_then (write_worker_integer_to 0) (\<lambda>_. write_worker_integer_to v)"
| "write_activity_field (StringField v) =
     w_then (write_worker_integer_to 1) (\<lambda>_. write_worker_byte_string_to v)"

definition write_activity_fields :: "activity_field list \<Rightarrow> unit writer" where
  "write_activity_fields fs =
     w_then (write_worker_integer_to (of_nat (length fs))) (\<lambda>_. w_each write_activity_field fs)"

fun write_frame_body :: "stderr_frame \<Rightarrow> unit writer" where
  "write_frame_body (Next message) =
     w_then (write_worker_integer_to STDERR_NEXT) (\<lambda>_. write_worker_byte_string_to message)"
| "write_frame_body (StartActivity i v t message fs p) =
     w_then (write_worker_integer_to STDERR_START_ACTIVITY) (\<lambda>_.
     w_then (write_worker_integer_to i) (\<lambda>_.
     w_then (write_worker_integer_to v) (\<lambda>_.
     w_then (write_worker_integer_to t) (\<lambda>_.
     w_then (write_worker_byte_string_to message) (\<lambda>_.
     w_then (write_activity_fields fs) (\<lambda>_.
     write_worker_integer_to p))))))"
| "write_frame_body (StopActivity i) =
     w_then (write_worker_integer_to STDERR_STOP_ACTIVITY) (\<lambda>_. write_worker_integer_to i)"
| "write_frame_body (ResultFrame i t fs) =
     w_then (write_worker_integer_to STDERR_RESULT) (\<lambda>_.
     w_then (write_worker_integer_to i) (\<lambda>_.
     w_then (write_worker_integer_to t) (\<lambda>_.
     write_activity_fields fs)))"
| "write_frame_body Last = write_worker_integer_to STDERR_LAST"

definition write_stderr_frame :: "stderr_frame \<Rightarrow> unit writer" where
  "write_stderr_frame frame =
     w_then (w_lift (result_map_err (\<lambda>_. frame_exceeds_limit) (validate_stderr_frame frame))) (\<lambda>_.
     write_frame_body frame)"

definition write_worker_error :: "bytes \<Rightarrow> unit writer" where
  "write_worker_error message =
     w_then (w_ensure (length message \<le> MAXIMUM_STRUCTURED_FRAME_MESSAGE_BYTES) frame_exceeds_limit) (\<lambda>_.
     w_then (write_worker_integer_to STDERR_ERROR) (\<lambda>_.
     w_then (write_worker_byte_string_to (ascii ''Error'')) (\<lambda>_.
     w_then (write_worker_integer_to 0) (\<lambda>_.
     w_then (write_worker_byte_string_to (ascii ''Error'')) (\<lambda>_.
     w_then (write_worker_byte_string_to message) (\<lambda>_.
     w_then (write_worker_integer_to 0) (\<lambda>_.
     write_worker_integer_to 0)))))))"

section \<open>Reading frames\<close>

definition read_worker_byte_string_from :: "'s worker_input \<Rightarrow> nat \<Rightarrow> (io_error, bytes, 's) run" where
  "read_worker_byte_string_from R maximum =
     and_then (read_usize_from R) (\<lambda>len.
     and_then (ensure (len \<le> maximum) protocol_client_error) (\<lambda>_.
     case checked_add len (padding_length len) of
       None \<Rightarrow> fail_with protocol_client_error
     | Some framed_len \<Rightarrow>
         and_then (read_exact R framed_len) (\<lambda>framed.
         and_then (ensure (\<forall>b\<in>set (drop len framed). b = 0) protocol_client_error) (\<lambda>_.
         ok (take len framed)))))"

definition discard_worker_byte_string :: "'s worker_input \<Rightarrow> nat \<Rightarrow> (io_error, unit, 's) run" where
  "discard_worker_byte_string R maximum = and_then (read_worker_byte_string_from R maximum) (\<lambda>_. ok ())"

primrec activity_fields_loop ::
  "'s worker_input \<Rightarrow> bool \<Rightarrow> nat \<Rightarrow> nat \<Rightarrow> bytes option \<Rightarrow> (io_error, bytes option, 's) run" where
  "activity_fields_loop R capture 0 index captured = ok captured"
| "activity_fields_loop R capture (Suc n) index captured =
     and_then (read_worker_integer_from R) (\<lambda>tag.
     if tag = 0 then
       and_then (read_worker_integer_from R) (\<lambda>_. activity_fields_loop R capture n (Suc index) captured)
     else if tag = 1 \<and> capture \<and> index = 0 then
       and_then (read_worker_byte_string_from R MAXIMUM_STRUCTURED_FRAME_MESSAGE_BYTES) (\<lambda>m.
         activity_fields_loop R capture n (Suc index) (Some m))
     else if tag = 1 then
       and_then (discard_worker_byte_string R MAXIMUM_STRUCTURED_FRAME_FIELD_BYTES) (\<lambda>_.
         activity_fields_loop R capture n (Suc index) captured)
     else fail_with protocol_client_error)"

definition read_activity_fields :: "'s worker_input \<Rightarrow> bool \<Rightarrow> (io_error, bytes option, 's) run" where
  "read_activity_fields R capture_first_string =
     and_then (read_usize_from R) (\<lambda>count.
     and_then (ensure (count \<le> MAXIMUM_STRUCTURED_FRAME_FIELDS) protocol_client_error) (\<lambda>_.
     activity_fields_loop R capture_first_string count 0 None))"

definition discard_activity_fields :: "'s worker_input \<Rightarrow> (io_error, unit, 's) run" where
  "discard_activity_fields R = and_then (read_activity_fields R False) (\<lambda>_. ok ())"

definition read_trace :: "'s worker_input \<Rightarrow> (io_error, unit, 's) run" where
  "read_trace R =
     and_then (read_worker_integer_from R) (\<lambda>_.
     discard_worker_byte_string R MAXIMUM_STRUCTURED_FRAME_MESSAGE_BYTES)"

definition read_worker_error_message :: "'s worker_input \<Rightarrow> worker_version \<Rightarrow> (io_error, bytes, 's) run" where
  "read_worker_error_message R version =
     and_then (discard_worker_byte_string R 256) (\<lambda>_.
     and_then (read_worker_integer_from R) (\<lambda>_.
     and_then (discard_worker_byte_string R 256) (\<lambda>_.
     and_then (read_worker_byte_string_from R MAXIMUM_STRUCTURED_FRAME_MESSAGE_BYTES) (\<lambda>message.
     and_then (read_worker_integer_from R) (\<lambda>_.
     and_then (if WorkerVersion 1 26 \<le> version then
                 and_then (read_usize_from R) (\<lambda>trace_count.
                 and_then (ensure (trace_count \<le> MAXIMUM_STRUCTURED_FRAME_FIELDS) protocol_client_error) (\<lambda>_.
                 and_then (repeat_run trace_count (read_trace R)) (\<lambda>_. ok ())))
               else ok ()) (\<lambda>_.
     ok message))))))"

definition discard_worker_error :: "'s worker_input \<Rightarrow> worker_version \<Rightarrow> (io_error, unit, 's) run" where
  "discard_worker_error R version = and_then (read_worker_error_message R version) (\<lambda>_. ok ())"

text \<open>One turn of the loop: \<^verbatim>\<open>True\<close> after the last frame.\<close>

definition read_operation_frame :: "'s worker_input \<Rightarrow> worker_version \<Rightarrow> (io_error, bool, 's) run" where
  "read_operation_frame R version =
     and_then (read_worker_integer_from R) (\<lambda>tag.
     if tag = STDERR_NEXT then
       and_then (discard_worker_byte_string R MAXIMUM_STRUCTURED_FRAME_MESSAGE_BYTES) (\<lambda>_. ok False)
     else if tag = STDERR_START_ACTIVITY then
       and_then (read_worker_integer_from R) (\<lambda>_.
       and_then (read_worker_integer_from R) (\<lambda>_.
       and_then (read_worker_integer_from R) (\<lambda>_.
       and_then (discard_worker_byte_string R MAXIMUM_STRUCTURED_FRAME_MESSAGE_BYTES) (\<lambda>_.
       and_then (discard_activity_fields R) (\<lambda>_.
       and_then (read_worker_integer_from R) (\<lambda>_. ok False))))))
     else if tag = STDERR_STOP_ACTIVITY then
       and_then (read_worker_integer_from R) (\<lambda>_. ok False)
     else if tag = STDERR_RESULT then
       and_then (read_worker_integer_from R) (\<lambda>_.
       and_then (read_worker_integer_from R) (\<lambda>_.
       and_then (discard_activity_fields R) (\<lambda>_. ok False)))
     else if tag = STDERR_ERROR then
       and_then (if WorkerVersion 1 26 \<le> version then discard_worker_error R version
                 else and_then (discard_worker_byte_string R MAXIMUM_STRUCTURED_FRAME_MESSAGE_BYTES) (\<lambda>_.
                      and_then (read_worker_integer_from R) (\<lambda>_. ok ()))) (\<lambda>_.
       fail_with protocol_client_error)
     else if tag = STDERR_LAST then ok True
     else fail_with protocol_client_error)"

section \<open>Progress on the input\<close>

text \<open>A run that never gives input back, so that a loop over it ends.\<close>

definition no_growth :: "('e, 'a, bytes) run \<Rightarrow> bool" where
  "no_growth m \<longleftrightarrow> (\<forall>s x s'. m s = Inr (x, s') \<longrightarrow> length s' \<le> length s)"

named_theorems growth_rule \<open>runs that never give input back\<close>

lemma growth_and_then [growth_rule]:
  "no_growth m \<Longrightarrow> (\<And>x. no_growth (k x)) \<Longrightarrow> no_growth (and_then m k)"
  unfolding no_growth_def by (auto simp: reader_iff) (meson le_trans)

lemma growth_basic [growth_rule]:
  "no_growth (ok x)" "no_growth (fail_with e)" "no_growth (ensure c e')"
  by (auto simp: no_growth_def reader_iff)

lemma growth_if [growth_rule]: "no_growth m \<Longrightarrow> no_growth m' \<Longrightarrow> no_growth (if c then m else m')"
  by simp

lemma growth_option [growth_rule]:
  "no_growth m \<Longrightarrow> (\<And>y. no_growth (k y)) \<Longrightarrow> no_growth (case c of None \<Rightarrow> m | Some y \<Rightarrow> k y)"
  by (simp split: option.split)

lemma growth_repeat [growth_rule]: "no_growth m \<Longrightarrow> no_growth (repeat_run n m)"
  by (induction n) (auto intro: growth_rule)

lemma growth_read_exact [growth_rule]: "no_growth (read_exact slice_input n)"
  by (auto simp: no_growth_def slice_input_def slice_read_exact_def split: if_splits)

lemma growth_integer [growth_rule]: "no_growth (read_worker_integer_from slice_input)"
  unfolding read_worker_integer_from_def by (intro growth_rule)

lemma growth_usize [growth_rule]: "no_growth (read_usize_from slice_input)"
  unfolding read_usize_from_def by (intro growth_rule)

lemma growth_byte_string [growth_rule]: "no_growth (read_worker_byte_string_from slice_input k)"
  unfolding read_worker_byte_string_from_def by (intro growth_rule)

lemma growth_discard [growth_rule]: "no_growth (discard_worker_byte_string slice_input k)"
  unfolding discard_worker_byte_string_def by (intro growth_rule)

lemma growth_fields_loop [growth_rule]: "no_growth (activity_fields_loop slice_input c n i cap)"
  by (induction n arbitrary: i cap) (auto intro!: growth_rule)

lemma growth_fields [growth_rule]:
  "no_growth (read_activity_fields slice_input c)" "no_growth (discard_activity_fields slice_input)"
  unfolding read_activity_fields_def discard_activity_fields_def by (intro growth_rule)+

lemma growth_error [growth_rule]:
  "no_growth (read_worker_error_message slice_input v)" "no_growth (discard_worker_error slice_input v)"
  unfolding read_worker_error_message_def discard_worker_error_def read_trace_def by (intro growth_rule)+

lemma integer_shrinks: "read_worker_integer_from slice_input s = Inr (w, s') \<Longrightarrow> length s' < length s"
  by (auto simp: read_worker_integer_from_def reader_iff slice_input_def slice_read_exact_def split: if_splits)

lemma shrinks_after_integer:
  assumes "and_then (read_worker_integer_from slice_input) k s = Inr (x, s')" and "\<And>w. no_growth (k w)"
  shows "length s' < length s"
  using assms integer_shrinks unfolding no_growth_def by (auto simp: reader_iff) (meson le_less_trans)

lemma operation_frame_shrinks:
  "read_operation_frame slice_input v s = Inr (b, s') \<Longrightarrow> length s' < length s"
  unfolding read_operation_frame_def
  by (erule shrinks_after_integer) (intro growth_rule)

section \<open>The loops\<close>

function read_operation_frames :: "worker_version \<Rightarrow> (io_error, unit, bytes) run" where
  "read_operation_frames version s =
     (case read_operation_frame slice_input version s of
        Inl e \<Rightarrow> Inl e
      | Inr (finished, s') \<Rightarrow> if finished then Inr ((), s') else read_operation_frames version s')"
  by pat_completeness auto

termination
  by (relation "measure (\<lambda>(v, s). length s)") (auto dest: operation_frame_shrinks)

declare read_operation_frames.simps [simp del]


text \<open>\<^verbatim>\<open>String::from_utf8_lossy\<close>: each maximal malformed part becomes U+FFFD.\<close>

definition replacement :: bytes where
  "replacement = [0xEF, 0xBF, 0xBD]"

fun utf8_lossy :: "bytes \<Rightarrow> bytes" where
  "utf8_lossy [] = []"
| "utf8_lossy (a # s) =
    (if a < 0x80 then a # utf8_lossy s
     else if 0xC2 \<le> a \<and> a \<le> 0xDF then
       (case s of
          b # r \<Rightarrow> if utf8_tail b then a # b # utf8_lossy r else replacement @ utf8_lossy s
        | [] \<Rightarrow> replacement)
     else if 0xE0 \<le> a \<and> a \<le> 0xEF then
       (case s of
          b # r \<Rightarrow>
            if utf8_tail b \<and> (a = 0xE0 \<longrightarrow> 0xA0 \<le> b) \<and> (a = 0xED \<longrightarrow> b \<le> 0x9F) then
              (case r of
                 c # q \<Rightarrow> if utf8_tail c then a # b # c # utf8_lossy q else replacement @ utf8_lossy r
               | [] \<Rightarrow> replacement)
            else replacement @ utf8_lossy s
        | [] \<Rightarrow> replacement)
     else if 0xF0 \<le> a \<and> a \<le> 0xF4 then
       (case s of
          b # r \<Rightarrow>
            if utf8_tail b \<and> (a = 0xF0 \<longrightarrow> 0x90 \<le> b) \<and> (a = 0xF4 \<longrightarrow> b \<le> 0x8F) then
              (case r of
                 c # q \<Rightarrow>
                   if utf8_tail c then
                     (case q of
                        d # p \<Rightarrow> if utf8_tail d then a # b # c # d # utf8_lossy p else replacement @ utf8_lossy q
                      | [] \<Rightarrow> replacement)
                   else replacement @ utf8_lossy r
               | [] \<Rightarrow> replacement)
            else replacement @ utf8_lossy s
        | [] \<Rightarrow> replacement)
     else replacement @ utf8_lossy s)"

definition message_text :: "bytes \<Rightarrow> string" where
  "message_text bs = map (\<lambda>b. char_of (unat b)) (utf8_lossy bs)"

definition BUILD_LOG_LINE_RESULT_TYPE :: u64 where
  "BUILD_LOG_LINE_RESULT_TYPE = 101"

datatype frame_event = LogChunk bytes | NoLog | FramesEnd

definition read_build_operation_frame :: "'s worker_input \<Rightarrow> worker_version \<Rightarrow> (io_error, frame_event, 's) run" where
  "read_build_operation_frame R version =
     and_then (read_worker_integer_from R) (\<lambda>tag.
     if tag = STDERR_NEXT then
       and_then (read_worker_byte_string_from R MAXIMUM_STRUCTURED_FRAME_MESSAGE_BYTES) (\<lambda>message.
       ok (LogChunk message))
     else if tag = STDERR_START_ACTIVITY then
       and_then (read_worker_integer_from R) (\<lambda>_.
       and_then (read_worker_integer_from R) (\<lambda>_.
       and_then (read_worker_integer_from R) (\<lambda>_.
       and_then (discard_worker_byte_string R MAXIMUM_STRUCTURED_FRAME_MESSAGE_BYTES) (\<lambda>_.
       and_then (discard_activity_fields R) (\<lambda>_.
       and_then (read_worker_integer_from R) (\<lambda>_. ok NoLog))))))
     else if tag = STDERR_STOP_ACTIVITY then
       and_then (read_worker_integer_from R) (\<lambda>_. ok NoLog)
     else if tag = STDERR_RESULT then
       and_then (read_worker_integer_from R) (\<lambda>_.
       and_then (read_worker_integer_from R) (\<lambda>result_type.
       and_then (read_activity_fields R (result_type = BUILD_LOG_LINE_RESULT_TYPE)) (\<lambda>line.
       ok (case line of Some message \<Rightarrow> LogChunk (message @ [0x0A]) | None \<Rightarrow> NoLog))))
     else if tag = STDERR_ERROR then
       and_then (if WorkerVersion 1 26 \<le> version then read_worker_error_message R version
                 else and_then (read_worker_byte_string_from R MAXIMUM_STRUCTURED_FRAME_MESSAGE_BYTES) (\<lambda>message.
                      and_then (read_worker_integer_from R) (\<lambda>_. ok message))) (\<lambda>diagnostic.
       fail_with (IoError Other (''Nix daemon BuildDerivation was rejected: '' @ message_text diagnostic)))
     else if tag = STDERR_LAST then ok FramesEnd
     else fail_with (IoError Other ''Nix daemon BuildDerivation response failed''))"

lemma build_frame_shrinks:
  "read_build_operation_frame slice_input v s = Inr (ev, s') \<Longrightarrow> length s' < length s"
  unfolding read_build_operation_frame_def
  by (erule shrinks_after_integer) (intro growth_rule)

text \<open>The log sink of the caller answers \<^verbatim>\<open>None\<close> when it fails; its state survives a failed read.\<close>

function read_build_operation_frames ::
  "worker_version \<Rightarrow> ('l \<Rightarrow> bytes \<Rightarrow> 'l option) \<Rightarrow> 'l \<Rightarrow> bytes \<Rightarrow> (io_error + (unit \<times> bytes)) \<times> 'l" where
  "read_build_operation_frames version sink logs s =
     (case read_build_operation_frame slice_input version s of
        Inl e \<Rightarrow> (Inl e, logs)
      | Inr (FramesEnd, s') \<Rightarrow> (Inr ((), s'), logs)
      | Inr (NoLog, s') \<Rightarrow> read_build_operation_frames version sink logs s'
      | Inr (LogChunk message, s') \<Rightarrow>
          (case sink logs message of
             None \<Rightarrow> (Inl (IoError Other ''Nix daemon BuildDerivation log sink failed''), logs)
           | Some logs' \<Rightarrow> read_build_operation_frames version sink logs' s'))"
  by pat_completeness auto

termination
  by (relation "measure (\<lambda>(v, k, l, s). length s)") (auto dest: build_frame_shrinks)

declare read_build_operation_frames.simps [simp del]

section \<open>Round trips\<close>

primrec enc_field :: "activity_field \<Rightarrow> bytes" where
  "enc_field (IntegerField v) = enc_integer 0 @ enc_integer v"
| "enc_field (StringField v) = enc_integer 1 @ enc_byte_string v"

definition enc_fields :: "activity_field list \<Rightarrow> bytes" where
  "enc_fields fs = enc_integer (of_nat (length fs)) @ concat (map enc_field fs)"

fun enc_frame :: "stderr_frame \<Rightarrow> bytes" where
  "enc_frame (Next message) = enc_integer STDERR_NEXT @ enc_byte_string message"
| "enc_frame (StartActivity i v t message fs p) =
     enc_integer STDERR_START_ACTIVITY @ enc_integer i @ enc_integer v @ enc_integer t @
     enc_byte_string message @ enc_fields fs @ enc_integer p"
| "enc_frame (StopActivity i) = enc_integer STDERR_STOP_ACTIVITY @ enc_integer i"
| "enc_frame (ResultFrame i t fs) =
     enc_integer STDERR_RESULT @ enc_integer i @ enc_integer t @ enc_fields fs"
| "enc_frame Last = enc_integer STDERR_LAST"

text \<open>What the client forwards of a frame.\<close>

fun frame_log :: "stderr_frame \<Rightarrow> bytes list" where
  "frame_log (Next message) = [message]"
| "frame_log (ResultFrame i t (StringField m # fs)) =
     (if t = BUILD_LOG_LINE_RESULT_TYPE then [m @ [0x0A]] else [])"
| "frame_log _ = []"

lemma write_frame_body_eval [writer_eval]: "write_frame_body f out = (Inr (), out @ enc_frame f)"
proof -
  have "write_activity_field g out = (Inr (), out @ enc_field g)" for g out
    by (cases g) (simp_all add: writer_eval)
  then have "write_activity_fields fs out = (Inr (), out @ enc_fields fs)" for fs out
    by (simp add: write_activity_fields_def writer_eval w_each_eval [of _ _ enc_field] enc_fields_def)
  then show ?thesis by (cases f) (simp_all add: writer_eval)
qed

lemma write_stderr_frame_eval [writer_eval]:
  "write_stderr_frame f out =
     (if validate_stderr_frame f = Inr () then (Inr (), out @ enc_frame f) else (Inl frame_exceeds_limit, out))"
  by (cases "validate_stderr_frame f") (auto simp: write_stderr_frame_def writer_eval result_map_err_def)

text \<open>Forward evaluation of the readers on an encoding.\<close>

named_theorems slice_eval \<open>readers on an encoding followed by more input\<close>

lemma slice_read_integer [slice_eval]:
  "read_worker_integer_from slice_input (enc_integer w @ r) = Inr (w, r)"
  using slice.read_exact_iff [of 8 "enc_integer w @ r" "enc_integer w" r]
  by (simp add: read_worker_integer_from_def and_then_def ok_def slice_reads_def of_le_nat_enc_integer)

lemma slice_read_usize [slice_eval]:
  "n < usize_limit \<Longrightarrow> read_usize_from slice_input (enc_integer (of_nat n) @ r) = Inr (n, r)"
  by (simp add: read_usize_from_def and_then_def ok_def slice_eval unat_of_nat_u64)

lemma slice_read_string [slice_eval]:
  assumes "length x \<le> k" and "framed_length (length x) < usize_limit"
  shows "read_worker_byte_string_from slice_input k (enc_byte_string x @ r) = Inr (x, r)"
proof -
  let ?p = "padding_length (length x)"
  have "length x < usize_limit" using assms(2) by (simp add: framed_length_def)
  then have "read_usize_from slice_input (enc_byte_string x @ r) = Inr (length x, x @ replicate ?p 0 @ r)"
    by (simp add: enc_byte_string_def slice_eval)
  moreover have "read_exact slice_input (length x + ?p) (x @ replicate ?p 0 @ r) = Inr (x @ replicate ?p 0, r)"
    by (simp add: slice.read_exact_iff slice_reads_def)
  moreover have "checked_add (length x) ?p = Some (length x + ?p)"
    using assms(2) by (simp add: framed_length_def)
  ultimately show ?thesis
    using assms(1) by (simp add: read_worker_byte_string_from_def and_then_def ensure_def ok_def checked_add_def)
qed

lemma slice_discard_string [slice_eval]:
  "length x \<le> k \<Longrightarrow> framed_length (length x) < usize_limit \<Longrightarrow>
   discard_worker_byte_string slice_input k (enc_byte_string x @ r) = Inr ((), r)"
  by (simp add: discard_worker_byte_string_def and_then_def ok_def slice_eval)

lemma and_then_eval [slice_eval]: "m s = Inr (x, s') \<Longrightarrow> and_then m k s = k x s'"
  by (simp add: and_then_def)

lemma run_eval [slice_eval]: "ok x s = Inr (x, s)" "c \<Longrightarrow> ensure c e s = Inr ((), s)" "fail_with e' s = Inl e'"
  by (simp_all add: ok_def ensure_def fail_with_def)

definition fields_ok :: "activity_field list \<Rightarrow> bool" where
  "fields_ok fs \<longleftrightarrow> length fs \<le> 64 \<and> (\<forall>f\<in>set fs. \<not> field_too_long f)"

lemma fields_ok_iff: "fields_ok fs \<longleftrightarrow> \<not> fields_exceed fs"
  by (auto simp: fields_ok_def fields_exceed_def list_ex_iff limit_defs)

definition captured_field :: "bool \<Rightarrow> activity_field list \<Rightarrow> bytes option" where
  "captured_field c fs = (case fs of StringField m # _ \<Rightarrow> if c then Some m else None | _ \<Rightarrow> None)"

lemma fields_loop_rest [slice_eval]:
  "(\<forall>f\<in>set fs. \<not> field_too_long f) \<Longrightarrow> \<not> c \<or> 0 < i \<Longrightarrow>
   activity_fields_loop slice_input c (length fs) i cap (concat (map enc_field fs) @ r) = Inr (cap, r)"
proof (induction fs arbitrary: i)
  case (Cons f fs)
  then show ?case by (cases f) (auto simp: slice_eval field_too_long_def limit_defs)
qed (simp add: slice_eval)

lemma fields_loop_eval [slice_eval]:
  assumes "\<forall>f\<in>set fs. \<not> field_too_long f"
  shows "activity_fields_loop slice_input c (length fs) 0 None (concat (map enc_field fs) @ r) =
    Inr (captured_field c fs, r)"
proof (cases fs)
  case (Cons f gs)
  then show ?thesis using assms
    by (cases f) (auto simp: slice_eval field_too_long_def limit_defs captured_field_def)
qed (simp add: slice_eval captured_field_def)

lemma read_fields_eval [slice_eval]:
  assumes "fields_ok fs"
  shows "read_activity_fields slice_input c (enc_fields fs @ r) = Inr (captured_field c fs, r)"
  using assms by (simp add: read_activity_fields_def enc_fields_def fields_ok_def slice_eval limit_defs usize_limit_def)

lemma discard_fields_eval [slice_eval]:
  "fields_ok fs \<Longrightarrow> discard_activity_fields slice_input (enc_fields fs @ r) = Inr ((), r)"
  by (simp add: discard_activity_fields_def slice_eval)

lemmas stderr_tags = STDERR_NEXT_def STDERR_LAST_def STDERR_ERROR_def STDERR_START_ACTIVITY_def
  STDERR_STOP_ACTIVITY_def STDERR_RESULT_def

lemma operation_frame_eval:
  "validate_stderr_frame f = Inr () \<Longrightarrow> read_operation_frame slice_input v (enc_frame f @ r) = Inr (f = Last, r)"
  by (cases f) (auto simp: read_operation_frame_def slice_eval stderr_tags limit_defs fields_ok_iff split: if_splits)

lemma build_frame_eval:
  "validate_stderr_frame f = Inr () \<Longrightarrow>
   read_build_operation_frame slice_input v (enc_frame f @ r) =
     Inr (if f = Last then FramesEnd else case frame_log f of [] \<Rightarrow> NoLog | m # _ \<Rightarrow> LogChunk m, r)"
  by (cases f rule: frame_log.cases)
     (auto simp: read_build_operation_frame_def slice_eval stderr_tags limit_defs fields_ok_iff captured_field_def
       split: if_splits)


lemma slice_read_usize_word [slice_eval]: "read_usize_from slice_input (enc_integer w @ r) = Inr (unat w, r)"
  by (simp add: read_usize_from_def and_then_def ok_def slice_eval)

lemma w_each_frames:
  "w_each write_stderr_frame fs out = (Inr (), out') \<longleftrightarrow>
     (\<forall>f\<in>set fs. validate_stderr_frame f = Inr ()) \<and> out' = out @ concat (map enc_frame fs)"
  by (induction fs arbitrary: out) (auto simp: writer_eval)

lemma operation_frames_eval:
  assumes "\<forall>f\<in>set fs. validate_stderr_frame f = Inr ()" and "Last \<notin> set fs"
  shows "read_operation_frames v (concat (map enc_frame fs) @ enc_frame Last @ r) = Inr ((), r)"
  using assms
proof (induction fs)
  case Nil
  show ?case using operation_frame_eval [of Last v r] by (simp add: read_operation_frames.simps)
next
  case (Cons f fs)
  then show ?case
    by (subst read_operation_frames.simps) (auto simp: operation_frame_eval)
qed

abbreviation collect_logs :: "bytes list \<Rightarrow> bytes \<Rightarrow> bytes list option" where
  "collect_logs logs m \<equiv> Some (logs @ [m])"

lemma frame_log_cases: "frame_log f = [] \<or> (\<exists>m. frame_log f = [m])"
  by (cases f rule: frame_log.cases) auto

lemma build_frames_eval:
  assumes "\<forall>f\<in>set fs. validate_stderr_frame f = Inr ()" and "Last \<notin> set fs"
  shows "read_build_operation_frames v collect_logs logs (concat (map enc_frame fs) @ enc_frame Last @ r) =
    (Inr ((), r), logs @ concat (map frame_log fs))"
  using assms
proof (induction fs arbitrary: logs)
  case Nil
  show ?case using build_frame_eval [of Last v r] by (simp add: read_build_operation_frames.simps)
next
  case (Cons f fs)
  then show ?case using frame_log_cases [of f]
    by (subst read_build_operation_frames.simps) (auto simp: build_frame_eval)
qed

section \<open>Properties\<close>

text \<open>
  C18: When the server has written a sequence of frames and the last frame, the client's loops read
  exactly these bytes: the plain loop succeeds, and the build loop forwards, in order, every log
  message and every build log line and nothing else.
\<close>

theorem frames_forwarded:
  assumes "Last \<notin> set frames" and "w_each write_stderr_frame (frames @ [Last]) [] = (Inr (), out)"
  shows "read_operation_frames v (out @ r) = Inr ((), r) \<and>
    read_build_operation_frames v collect_logs logs (out @ r) =
      (Inr ((), r), logs @ concat (map frame_log frames))"
  using assms operation_frames_eval [of frames v r] build_frames_eval [of frames v logs r]
  by (auto simp: w_each_frames)

theorem frames_forwarded_witness:
  "let frames = [StartActivity 1 3 105 (ascii ''building'') [IntegerField 7] 0, Next (ascii ''hello''),
                 ResultFrame 1 101 [StringField (ascii ''log line'')], StopActivity 1];
       out = snd (w_each write_stderr_frame (frames @ [Last]) [])
   in Last \<notin> set frames \<and> w_each write_stderr_frame (frames @ [Last]) [] = (Inr (), out) \<and>
      read_build_operation_frames LATEST_WORKER_VERSION collect_logs [] (out @ [1, 2]) =
        (Inr ((), [1, 2]), [ascii ''hello'', ascii ''log line'' @ [0x0A]])"
proof -
  let ?fs = "[StartActivity 1 3 105 (ascii ''building'') [IntegerField 7] 0, Next (ascii ''hello''),
                 ResultFrame 1 101 [StringField (ascii ''log line'')], StopActivity 1]"
  have "w_each write_stderr_frame (?fs @ [Last]) [] = (Inr (), snd (w_each write_stderr_frame (?fs @ [Last]) []))"
    by (simp add: w_each_frames writer_eval fields_exceed_def field_too_long_def limit_defs)
  then show ?thesis
    using frames_forwarded [of ?fs _ LATEST_WORKER_VERSION "[1, 2]" "[]"]
    by (simp add: Let_def BUILD_LOG_LINE_RESULT_TYPE_def)
qed

text \<open>
  C33: An error the server reports is read back by the client as a refusal that carries the message,
  and never as a success.
\<close>

theorem worker_error_refuses:
  assumes "WorkerVersion 1 26 \<le> v" and "write_worker_error message [] = (Inr (), out)"
  shows "read_operation_frames v (out @ r) = Inl protocol_client_error \<and>
    read_build_operation_frames v sink logs (out @ r) =
      (Inl (IoError Other (''Nix daemon BuildDerivation was rejected: '' @ message_text message)), logs)"
proof -
  have len: "length message \<le> 16384" and out: "out = enc_integer STDERR_ERROR @ enc_byte_string (ascii ''Error'') @
      enc_integer 0 @ enc_byte_string (ascii ''Error'') @ enc_byte_string message @ enc_integer 0 @ enc_integer 0"
    using assms(2) by (auto simp: write_worker_error_def writer_eval limit_defs split: if_splits)
  have "read_worker_error_message slice_input v (enc_byte_string (ascii ''Error'') @ enc_integer 0 @
      enc_byte_string (ascii ''Error'') @ enc_byte_string message @ enc_integer 0 @ enc_integer 0 @ r) = Inr (message, r)"
    using assms(1) len by (simp add: read_worker_error_message_def slice_eval limit_defs)
  then show ?thesis unfolding out
    using assms(1) by (simp add: read_operation_frames.simps read_build_operation_frames.simps
      read_operation_frame_def read_build_operation_frame_def discard_worker_error_def slice_eval stderr_tags)
qed


theorem worker_error_refuses_witness:
  "WorkerVersion 1 26 \<le> LATEST_WORKER_VERSION \<and>
   write_worker_error (ascii ''no space'') [] = (Inr (), snd (write_worker_error (ascii ''no space'') [])) \<and>
   read_operation_frames LATEST_WORKER_VERSION (snd (write_worker_error (ascii ''no space'') []) @ [5]) =
     Inl protocol_client_error"
proof -
  have v: "WorkerVersion 1 26 \<le> LATEST_WORKER_VERSION"
    by (simp add: LATEST_WORKER_VERSION_def less_eq_worker_version_def)
  have w: "write_worker_error (ascii ''no space'') [] = (Inr (), snd (write_worker_error (ascii ''no space'') []))"
    by (simp add: write_worker_error_def writer_eval limit_defs)
  show ?thesis using worker_error_refuses [OF v w, of "[5]" "\<lambda>l m. Some l" "()"] v w by blast
qed

end
