(* ===== verification/Handshake.thy ===== *)
theory Handshake
  imports Stderr
begin

text \<open>
  Connection set-up: version negotiation, the server handshake and post-handshake of
  \<^verbatim>\<open>WorkerReader\<close> (\<^verbatim>\<open>nix-worker-protocol/src/lib.rs\<close>), the \<^verbatim>\<open>SetOptions\<close> message, and the connecting
  side of \<^verbatim>\<open>WorkerClient\<close> (\<^verbatim>\<open>client.rs\<close>). A dialogue reads one stream and writes another; what it has
  written stays written when a later read fails.
\<close>

section \<open>Dialogues\<close>

type_synonym ('a, 's) dialogue = "'s \<Rightarrow> bytes \<Rightarrow> (io_error + ('a \<times> 's)) \<times> bytes"

definition d_read :: "(io_error, 'a, 's) run \<Rightarrow> ('a, 's) dialogue" where
  "d_read m s out = (m s, out)"

definition d_write :: "'a writer \<Rightarrow> ('a, 's) dialogue" where
  "d_write w s out = (case w out of (Inl e, out1) \<Rightarrow> (Inl e, out1) | (Inr x, out1) \<Rightarrow> (Inr (x, s), out1))"

definition d_then :: "('a, 's) dialogue \<Rightarrow> ('a \<Rightarrow> ('b, 's) dialogue) \<Rightarrow> ('b, 's) dialogue" where
  "d_then m k s out =
     (case m s out of (Inl e, out1) \<Rightarrow> (Inl e, out1) | (Inr (x, s1), out1) \<Rightarrow> k x s1 out1)"

definition d_when :: "bool \<Rightarrow> (unit, 's) dialogue \<Rightarrow> (unit, 's) dialogue" where
  "d_when c m = (if c then m else d_read (ok ()))"

section \<open>Negotiation\<close>

record negotiated_worker_version =
  nv_version :: worker_version
  nv_features :: "bytes list"
  nv_feature_charge :: "(charge \<times> charge list) option"




definition negotiate_worker_version ::
  "worker_version \<Rightarrow> bytes list \<Rightarrow> bytes list \<Rightarrow> protocol_error + negotiated_worker_version" where
  "negotiate_worker_version client_version client_features server_features =
     (let version = min client_version LATEST_WORKER_VERSION in
      if version < MINIMUM_WORKER_VERSION then Inl VersionMismatch
      else Inr \<lparr>nv_version = version,
             nv_features = (if WorkerVersion 1 38 \<le> version
               then filter (\<lambda>f. f \<in> set server_features) client_features else []),
             nv_feature_charge = None\<rparr>)"

definition read_client_worker_magic :: "(protocol_error, unit, bytes) run" where
  "read_client_worker_magic =
     and_then read_worker_integer (\<lambda>w.
     if w = CLIENT_WORKER_MAGIC then ok () else fail_with VersionMismatch)"

section \<open>The server\<close>







definition read_operation :: "'s worker_input \<Rightarrow> (io_error, worker_operation, 's \<times> budget) run" where
  "read_operation R =
     and_then (on_fst (read_worker_integer_from R)) (\<lambda>code.
     lift_result (result_map_err (\<lambda>_. invalid_data ''unknown worker operation'')
       (worker_operation_from_code code)))"

section \<open>Options\<close>

text \<open>The discarded string is read in pieces of 4096 bytes; the last piece holds the padding.\<close>

function discard_pieces :: "'s worker_input \<Rightarrow> nat \<Rightarrow> nat \<Rightarrow> (io_error, unit, 's) run" where
  "discard_pieces R padding remaining =
     (if remaining = 0 then ok ()
      else
        let read_length = min remaining 4096 in
        and_then (read_exact R read_length) (\<lambda>buffer.
        and_then (ensure (\<not> (remaining = read_length \<and> 0 < padding \<and>
                     (\<exists>b\<in>set (drop (read_length - padding) buffer). b \<noteq> 0)))
                   (invalid_data ''worker string padding is not zero'')) (\<lambda>_.
        discard_pieces R padding (remaining - read_length))))"
  by pat_completeness auto

termination
  by (relation "measure (\<lambda>(R, p, n). n)") auto

declare discard_pieces.simps [simp del]

definition discard_byte_string :: "'s worker_input \<Rightarrow> nat \<Rightarrow> (io_error, unit, 's) run" where
  "discard_byte_string R maximum_length =
     and_then (read_usize_from R) (\<lambda>len.
     and_then (ensure (len \<le> maximum_length) (invalid_data ''worker string exceeds limit'')) (\<lambda>_.
     discard_pieces R (padding_length len) (len + padding_length len)))"

definition discard_override :: "'s worker_input \<Rightarrow> (io_error, unit, 's) run" where
  "discard_override R =
     and_then (discard_byte_string R 16384) (\<lambda>_. discard_byte_string R 16384)"

definition complete_set_options :: "'s worker_input \<Rightarrow> (io_error, unit, 's) run" where
  "complete_set_options R =
     and_then (repeat_run 12 (read_worker_integer_from R)) (\<lambda>_.
     and_then (read_worker_integer_from R) (\<lambda>override_count.
     and_then (ensure (override_count \<le> 256) (invalid_data ''too many option overrides'')) (\<lambda>_.
     and_then (repeat_run (unat override_count) (discard_override R)) (\<lambda>_.
     \<lambda>s. Inr ((), complete_message R s)))))"

section \<open>The client\<close>









section \<open>Lemmas on dialogues\<close>

lemma d_read_eval [slice_eval]: "d_read m s out = (m s, out)"
  by (simp add: d_read_def)

lemma d_write_eval [slice_eval]: "w out = (Inr x, out1) \<Longrightarrow> d_write w s out = (Inr (x, s), out1)"
  by (simp add: d_write_def)

lemma d_then_eval [slice_eval]: "m s out = (Inr (x, s1), out1) \<Longrightarrow> d_then m k s out = k x s1 out1"
  by (simp add: d_then_def)

lemma d_when_eval [slice_eval]: "d_when True m = m" "d_when False m = d_read (ok ())"
  by (simp_all add: d_when_def)

lemma d_then_Inr [reader_iff]:
  "d_then m k s out = (Inr r, out') \<longleftrightarrow>
     (\<exists>x s1 out1. m s out = (Inr (x, s1), out1) \<and> k x s1 out1 = (Inr r, out'))"
  by (auto simp: d_then_def split: prod.splits sum.splits)

lemma d_read_Inr [reader_iff]: "d_read m s out = (Inr r, out') \<longleftrightarrow> m s = Inr r \<and> out' = out"
  by (auto simp: d_read_def)

lemma d_write_Inr [reader_iff]:
  "d_write w s out = (Inr (x, s'), out') \<longleftrightarrow> w out = (Inr x, out') \<and> s' = s"
  by (auto simp: d_write_def split: prod.splits sum.splits)

section \<open>Discarding in pieces\<close>

lemma framed_multiple: "8 dvd len + padding_length len"
proof (cases "len mod 8 = 0")
  case False
  have l: "len mod 8 < 8" by simp
  have "padding_length len = 8 - len mod 8" using False by (simp add: padding_length_def)
  then have "len + padding_length len = 8 * (len div 8 + 1)"
    using mult_div_mod_eq [of 8 len] l by arith
  then show ?thesis by simp
qed (simp add: padding_length_def mod_eq_0_iff_dvd)

lemma pieces_split:
  assumes "4096 < n" and "8 \<le> n - 4096" and "p < (8 :: nat)"
  shows "(\<exists>b1. length b1 = 4096 \<and> (\<exists>b2. length b2 = n - 4096 \<and>
       (\<forall>b\<in>set (drop (n - (4096 + p)) b2). P b) \<and> bs = b1 @ b2 \<and> Q)) \<longleftrightarrow>
     length bs = n \<and> (\<forall>b\<in>set (drop (n - p) bs). P b) \<and> Q" (is "?l \<longleftrightarrow> ?r")
proof
  assume ?l
  then show ?r using assms by (auto simp: add.commute)
next
  assume r: ?r
  have "drop (n - (4096 + p)) (drop 4096 bs) = drop (n - p) bs" using assms by simp
  then show ?l using r assms
    by (intro exI [of _ "take 4096 bs"] exI [of _ "drop 4096 bs"] conjI) auto
qed

definition enc_override :: "bytes \<times> bytes \<Rightarrow> bytes" where
  "enc_override kv = enc_byte_string (fst kv) @ enc_byte_string (snd kv)"

context byte_source
begin

lemma decodes_client_string [decodes_rule]:
  "decodes reads (on_fst (read_worker_byte_string_from R k))
     (\<lambda>x bs n. length x \<le> k \<and> framed_length (length x) < usize_limit \<and> bs = enc_byte_string x \<and> n = 0)"
proof -
  have on_fst_option: "on_fst (case c of None \<Rightarrow> m | Some y \<Rightarrow> k y) =
      (case c of None \<Rightarrow> on_fst m | Some y \<Rightarrow> on_fst (k y))" for c and m :: "(io_error, bytes, 's) run" and k
    by (simp split: option.split)
  show ?thesis
    unfolding read_worker_byte_string_from_def on_fst_simps on_fst_option
  proof (rule decodes_cong, (rule decodes_rule)+, goal_cases)
    case (1 x bs n)
    have eq: "length fr = len + padding_length len \<and> (\<forall>b\<in>set (drop len fr). b = 0) \<and> x = take len fr \<and> Q \<longleftrightarrow>
      length x = len \<and> fr = x @ replicate (padding_length len) 0 \<and> Q" for fr len Q
      using framed_split [of fr len x] by (auto simp: framed_length_def)
    show ?case by (auto simp: eq enc_byte_string_def framed_length_def)
  qed
qed

lemma decodes_discard_pieces:
  assumes "8 dvd n" and "p < 8"
  shows "decodes reads (on_fst (discard_pieces R p n))
     (\<lambda>u bs m. length bs = n \<and> (n \<noteq> 0 \<longrightarrow> (\<forall>b\<in>set (drop (n - p) bs). b = 0)) \<and> m = 0)"
  using assms(1)
proof (induction n rule: less_induct)
  case (less n)
  consider "n = 0" | "0 < n" "n \<le> 4096" | "4096 < n" by linarith
  then show ?case
  proof cases
    case 1
    then show ?thesis
      by (subst discard_pieces.simps) (auto simp: on_fst_simps intro: decodes_cong [OF decodes_ok])
  next
    case 2
    have last: "discard_pieces R p 0 = ok ()" by (simp add: discard_pieces.simps)
    show ?thesis using 2
      apply (subst discard_pieces.simps)
      apply (simp add: on_fst_simps last)
      apply (rule decodes_cong, (rule decodes_rule)+)
      by (cases p) auto
  next
    case 3
    have d: "8 dvd n - 4096" using less.prems 3 by (simp add: dvd_diff_nat)
    then have ge: "8 \<le> n - 4096" using 3 by (simp add: dvd_imp_le)
    have IH: "decodes reads (on_fst (discard_pieces R p (n - 4096)))
       (\<lambda>u bs m. length bs = n - 4096 \<and> (n - 4096 \<noteq> 0 \<longrightarrow> (\<forall>b\<in>set (drop (n - 4096 - p) bs). b = 0)) \<and> m = 0)"
      using less.IH [OF _ d] 3 by simp
    have m: "min n 4096 = 4096" "n \<noteq> 4096" "n \<noteq> 0" using 3 by simp_all
    show ?thesis
      apply (subst discard_pieces.simps)
      apply (simp add: on_fst_simps m)
      apply (rule decodes_cong, (rule IH decodes_rule)+)
      using pieces_split [OF 3 ge assms(2)] 3 by simp
  qed
qed

lemma decodes_discard_byte_string [decodes_rule]:
  assumes "k \<le> 1099511627776"
  shows "decodes reads (on_fst (discard_byte_string R k))
     (\<lambda>u bs n. (\<exists>x. length x \<le> k \<and> bs = enc_byte_string x) \<and> n = 0)"
proof -
  have "decodes reads (on_fst (discard_pieces R (padding_length len) (len + padding_length len)))
     (\<lambda>u bs m. (\<exists>x. length x = len \<and> bs = x @ replicate (padding_length len) 0) \<and> m = 0)" for len
  proof (rule decodes_cong [OF decodes_discard_pieces [OF _ padding_length_less]], goal_cases)
    case 1
    show ?case by (rule framed_multiple)
  next
    case (2 u bs m)
    have "(length bs = len + padding_length len \<and> (len + padding_length len \<noteq> 0 \<longrightarrow>
        (\<forall>b\<in>set (drop (len + padding_length len - padding_length len) bs). b = 0))) \<longleftrightarrow>
      length bs = framed_length len \<and> (\<forall>b\<in>set (drop len bs). b = 0)"
      by (auto simp: framed_length_def)
    also have "\<dots> \<longleftrightarrow> (\<exists>x. length bs = framed_length len \<and> (\<forall>b\<in>set (drop len bs). b = 0) \<and> x = take len bs)"
      by simp
    also have "\<dots> \<longleftrightarrow> (\<exists>x. length x = len \<and> bs = x @ replicate (padding_length len) 0)"
      unfolding framed_split ..
    finally have eq: "(length bs = len + padding_length len \<and> (len + padding_length len \<noteq> 0 \<longrightarrow>
        (\<forall>b\<in>set (drop (len + padding_length len - padding_length len) bs). b = 0))) \<longleftrightarrow>
      (\<exists>x. length x = len \<and> bs = x @ replicate (padding_length len) 0)" .
    show ?case unfolding conj_assoc [symmetric] eq ..
  qed
  note pieces = this
  show ?thesis unfolding discard_byte_string_def on_fst_simps
  proof (rule decodes_cong, (rule pieces decodes_rule)+, goal_cases)
    case (1 u bs n)
    have "length x < usize_limit" if "length x \<le> k" for x :: bytes
      using that assms by (simp add: usize_limit_def)
    then show ?case by (fastforce simp: enc_byte_string_def)
  qed
qed

lemma decodes_plain:
  assumes "decodes reads (on_fst m) P"
  shows "m s = Inr (x, s') \<longleftrightarrow> (\<exists>bs. P x bs 0 \<and> reads s bs s')"
proof -
  let ?b = "\<lparr>retained_bytes = 0, maximum_retained_bytes = 0\<rparr>"
  have ok: "budget_ok ?b" by (simp add: budget_ok_def usize_limit_def)
  have "m s = Inr (x, s') \<longleftrightarrow> on_fst m (s, ?b) = Inr (x, (s', ?b))"
    by (simp add: on_fst_Inr)
  also have "\<dots> \<longleftrightarrow> (\<exists>bs n. P x bs n \<and> reads s bs s' \<and> charges ?b n ?b)"
    using decodesD [OF assms, of "(s, ?b)" x "(s', ?b)"] ok by (simp add: consumes_def)
  finally show ?thesis by (auto simp: charges_def usize_limit_def)
qed

lemma decodes_repeat_units:
  assumes "decodes reads m (\<lambda>u bs n. (\<exists>v. valid v \<and> bs = enc v) \<and> n = 0)"
  shows "decodes reads (repeat_run k m) (\<lambda>us bs n. length us = k \<and>
    (\<exists>vs. length vs = k \<and> (\<forall>v\<in>set vs. valid v) \<and> bs = concat (map enc vs)) \<and> n = 0)"
proof (induction k)
  case 0
  show ?case unfolding repeat_run.simps by (rule decodes_cong [OF decodes_ok]) auto
next
  case (Suc k)
  show ?case unfolding repeat_run.simps
  proof (rule decodes_cong [OF decodes_and_then [OF assms decodes_and_then [OF Suc decodes_ok]]], goal_cases)
    case (1 us bs n)
    show ?case by (cases us) (auto simp: ex_length_Suc; blast)+
  qed
qed

lemma decodes_set_options_body:
  "decodes reads (on_fst (and_then (repeat_run 12 (read_worker_integer_from R)) (\<lambda>_.
     and_then (read_worker_integer_from R) (\<lambda>override_count.
     and_then (ensure (override_count \<le> 256) e) (\<lambda>_.
     repeat_run (unat override_count) (discard_override R))))))
    (\<lambda>u bs n. length u \<le> 256 \<and> (\<exists>vs kvs. length vs = 12 \<and> length kvs = length u \<and>
       (\<forall>kv\<in>set kvs. length (fst kv) \<le> 16384 \<and> length (snd kv) \<le> 16384) \<and>
       bs = concat (map enc_integer vs) @ enc_integer (of_nat (length kvs)) @ concat (map enc_override kvs)) \<and>
       n = 0)"
proof -
  have on_fst_repeat: "on_fst (repeat_run k m) = repeat_run k (on_fst m)" for k and m :: "(io_error, 'x, 's) run"
    by (induction k) (simp_all add: on_fst_simps)
  have ints: "decodes reads (repeat_run 12 (on_fst (read_worker_integer_from R)))
      (\<lambda>ws bs n. length ws = 12 \<and> (\<forall>w\<in>set ws. True) \<and> bs = concat (map enc_integer ws) \<and>
         n = sum_list (map (\<lambda>_. 0) ws))"
    by (rule decodes_repeat) (rule decodes_cong [OF decodes_integer], simp)
  have pair: "decodes reads (on_fst (discard_override R))
      (\<lambda>u bs n. (\<exists>kv. (length (fst kv) \<le> 16384 \<and> length (snd kv) \<le> 16384) \<and>
         bs = enc_override kv) \<and> n = 0)"
    unfolding discard_override_def on_fst_simps enc_override_def
    by (rule decodes_cong [OF decodes_and_then [OF decodes_discard_byte_string decodes_discard_byte_string]]) auto
  show ?thesis unfolding on_fst_simps on_fst_repeat
  proof (rule decodes_cong, (rule ints decodes_repeat_units [OF pair] decodes_rule)+, goal_cases)
    case (1 u bs n)
    have w: "(\<exists>w :: u64. w \<le> 256 \<and> length u = unat w \<and> Q w) \<longleftrightarrow> length u \<le> 256 \<and> Q (of_nat (length u))" for Q
    proof
      assume "\<exists>w :: u64. w \<le> 256 \<and> length u = unat w \<and> Q w"
      then show "length u \<le> 256 \<and> Q (of_nat (length u))" by (auto simp: word_le_nat_alt)
    next
      assume r: "length u \<le> 256 \<and> Q (of_nat (length u))"
      have "unat (of_nat (length u) :: u64) = length u"
        using r by (intro unat_of_nat_u64) (simp add: usize_limit_def)
      then show "\<exists>w :: u64. w \<le> 256 \<and> length u = unat w \<and> Q w"
        using r by (intro exI [of _ "of_nat (length u)"]) (simp add: word_le_nat_alt)
    qed
    have un: "length u \<le> 256 \<Longrightarrow> unat (of_nat (length u) :: u64) = length u"
      by (intro unat_of_nat_u64) (simp add: usize_limit_def)
    show ?case
    proof (cases "length u \<le> 256")
      case True
      show ?thesis by (simp add: w un True) (auto; metis)
    qed (simp add: w)
  qed
qed

end


section \<open>Evaluation of the handshake\<close>

lemma on_fst_eval [slice_eval]: "m s = Inr (x, s') \<Longrightarrow> on_fst m (s, b) = Inr (x, (s', b))"
  by (simp add: on_fst_def)


lemma enc_strings_Nil: "enc_strings [] = enc_integer 0"
  by (simp add: enc_strings_def)

lemma no_strings_eval [slice_eval]:
  assumes "budget_ok b"
  shows "read_worker_strings_from slice_input (enc_integer 0 @ r, b) =
    Inr (\<lparr>string_values = [], strings_collection_charge = 0, strings_value_charges = []\<rparr>, (r, b))"
  using decodesD [OF slice.decodes_strings, of "(enc_integer 0 @ r, b)"] assms charges_0 [OF assms]
  by (auto simp: consumes_def slice_reads_def strings_valid_def strings_cost_def size_of_vec_def limit_defs enc_strings_Nil)



lemma slice_complete_message [slice_eval]: "complete_message slice_input s = s"
  by (simp add: slice_input_def)

lemmas slice_read_final_integer [slice_eval] = slice_read_integer [of _ "[]", simplified]


section \<open>Properties\<close>

text \<open>
  C34: Discarding a string in pieces of 4096 bytes accepts exactly the strings that reading it whole
  accepts, and stops at the same place.
\<close>

theorem discard_agrees_with_read:
  assumes "k \<le> 16384"
  shows "discard_byte_string slice_input k s = Inr ((), s') \<longleftrightarrow>
    (\<exists>x. read_worker_byte_string_from slice_input k s = Inr (x, s'))"
proof -
  have "k \<le> 1099511627776" using assms by simp
  then have "discard_byte_string slice_input k s = Inr ((), s') \<longleftrightarrow>
      (\<exists>bs. (\<exists>x. length x \<le> k \<and> bs = enc_byte_string x) \<and> slice_reads s bs s')"
    using slice.decodes_plain [OF slice.decodes_discard_byte_string, of k s "()" s'] by simp
  moreover have "read_worker_byte_string_from slice_input k s = Inr (x, s') \<longleftrightarrow>
      length x \<le> k \<and> slice_reads s (enc_byte_string x) s'" for x
    using assms slice.decodes_plain [OF slice.decodes_client_string, of k s x s'] by auto
  ultimately show ?thesis by auto
qed

theorem discard_agrees_with_read_witness:
  "(8 :: nat) \<le> 16384 \<and> discard_byte_string slice_input 8 (enc_byte_string [1, 2, 3] @ [4]) = Inr ((), [4])"
proof -
  have "read_worker_byte_string_from slice_input 8 (enc_byte_string [1, 2, 3] @ [4]) = Inr ([1, 2, 3], [4])"
    by (simp add: slice_eval)
  then show ?thesis
    using discard_agrees_with_read [of 8 "enc_byte_string [1, 2, 3] @ [4]" "[4]"] by auto
qed

text \<open>
  C26: A SetOptions message is accepted on the input of a session exactly when twelve integers and at
  most 256 pairs of strings of at most 16384 bytes follow; nothing is charged and no message is left
  in progress.
\<close>

theorem set_options_accepts_exactly:
  "complete_set_options session_worker_input s = Inr ((), s') \<longleftrightarrow>
   (\<exists>vs kvs. length vs = 12 \<and> length kvs \<le> 256 \<and>
      (\<forall>kv\<in>set kvs. length (fst kv) \<le> 16384 \<and> length (snd kv) \<le> 16384) \<and>
      stream s = concat (map enc_integer vs) @ enc_integer (of_nat (length kvs)) @
        concat (map enc_override kvs) @ stream s' \<and> \<not> message_in_progress s')"
proof -
  let ?e = "invalid_data ''too many option overrides''"
  let ?body = "and_then (repeat_run 12 (read_worker_integer_from session_worker_input)) (\<lambda>_.
     and_then (read_worker_integer_from session_worker_input) (\<lambda>override_count.
     and_then (ensure (override_count \<le> 256) ?e) (\<lambda>_.
     repeat_run (unat override_count) (discard_override session_worker_input))))"
  have "complete_set_options session_worker_input s = Inr ((), s') \<longleftrightarrow>
      (\<exists>u s1. ?body s = Inr (u, s1) \<and> s' = complete_message session_worker_input s1)"
    by (auto simp: complete_set_options_def reader_iff)
  also have "\<dots> \<longleftrightarrow> (\<exists>u s1. (\<exists>bs. (length (u :: unit list) \<le> 256 \<and>
      (\<exists>vs kvs. length vs = 12 \<and> length kvs = length u \<and>
       (\<forall>kv\<in>set kvs. length (fst kv) \<le> 16384 \<and> length (snd kv) \<le> 16384) \<and>
       bs = concat (map enc_integer vs) @ enc_integer (of_nat (length kvs)) @ concat (map enc_override kvs))) \<and>
      session_reads s bs s1) \<and> s' = complete_message session_worker_input s1)"
    by (simp only: session.decodes_plain [OF session.decodes_set_options_body] simp_thms)
  also have "\<dots> \<longleftrightarrow> (\<exists>vs kvs. length vs = 12 \<and> length kvs \<le> 256 \<and>
      (\<forall>kv\<in>set kvs. length (fst kv) \<le> 16384 \<and> length (snd kv) \<le> 16384) \<and>
      (\<exists>s1. session_reads s (concat (map enc_integer vs) @ enc_integer (of_nat (length kvs)) @
        concat (map enc_override kvs)) s1 \<and> s' = complete_message session_worker_input s1))"
    (is "?L = ?R")
  proof
    assume ?L
    then obtain u vs kvs s1 where "length u \<le> 256" "length vs = 12" "length kvs = length (u :: unit list)"
      "\<forall>kv\<in>set kvs. length (fst kv) \<le> 16384 \<and> length (snd kv) \<le> 16384"
      "session_reads s (concat (map enc_integer vs) @ enc_integer (of_nat (length kvs)) @
        concat (map enc_override kvs)) s1" "s' = complete_message session_worker_input s1"
      by (elim exE conjE) simp
    then show ?R by (intro exI [of _ vs] exI [of _ kvs]) auto
  next
    assume ?R
    then obtain vs kvs s1 where "length vs = 12" "length kvs \<le> 256"
      "\<forall>kv\<in>set kvs. length (fst kv) \<le> 16384 \<and> length (snd kv) \<le> 16384"
      "session_reads s (concat (map enc_integer vs) @ enc_integer (of_nat (length kvs)) @
        concat (map enc_override kvs)) s1" "s' = complete_message session_worker_input s1"
      by blast
    then show ?L
      by (intro exI [of _ "replicate (length kvs) ()"] exI [of _ s1] conjI exI [of _ vs] exI [of _ kvs]
          exI [of _ "concat (map enc_integer vs) @ enc_integer (of_nat (length kvs)) @ concat (map enc_override kvs)"])
        simp_all
  qed
  finally show ?thesis unfolding session_complete_reads by simp
qed

theorem set_options_accepts_exactly_witness:
  "complete_set_options session_worker_input
     \<lparr>stream = concat (map enc_integer (replicate 12 0)) @ enc_integer 1 @
        enc_override (ascii ''cores'', ascii ''4'') @ [7], message_in_progress = False\<rparr> =
   Inr ((), \<lparr>stream = [7], message_in_progress = False\<rparr>)"
proof -
  have "\<exists>vs kvs. length vs = 12 \<and> length kvs \<le> 256 \<and>
      (\<forall>kv\<in>set kvs. length (fst kv) \<le> 16384 \<and> length (snd kv) \<le> 16384) \<and>
      concat (map enc_integer (replicate 12 0)) @ enc_integer 1 @ enc_override (ascii ''cores'', ascii ''4'') @ [7] =
      concat (map enc_integer vs) @ enc_integer (of_nat (length kvs)) @ concat (map enc_override kvs) @ [7]"
    by (intro exI [of _ "replicate 12 0"] exI [of _ "[(ascii ''cores'', ascii ''4'')]"]) (simp add: ascii_def)
  then show ?thesis
    by (subst set_options_accepts_exactly) simp
qed



end
