(* ===== verification/Nar.thy ===== *)
theory Nar
  imports Wire
begin

text \<open>
  The NAR parser of \<^verbatim>\<open>telchar/src/store/nar.rs\<close>. A \<^verbatim>\<open>NarReader\<close> copies every byte it reads to its
  staging writer and to the hasher and counts it; the hasher is held as the bytes fed to it, and SHA-256
  is a parameter applied when the fingerprint is taken. The archive format itself is written down
  independently as a tree with a serializer, and the parser is shown to accept exactly the
  serializations of well-formed trees.
\<close>

section \<open>Reader\<close>

record nar_fingerprint =
  nar_sha256 :: bytes
  fingerprint_size :: u64

record nar_reader =
  nar_source :: bytes
  nar_staging :: bytes
  nar_hasher :: bytes
  nar_count :: u64

definition new_nar_reader :: "bytes \<Rightarrow> nar_reader" where
  "new_nar_reader src = \<lparr>nar_source = src, nar_staging = [], nar_hasher = [], nar_count = 0\<rparr>"

definition nar_invalid :: "string \<Rightarrow> io_error" where
  "nar_invalid message = invalid_data message"

definition nar_read_exact :: "nat \<Rightarrow> (io_error, bytes, nar_reader) run" where
  "nar_read_exact n s =
     (if n \<le> length (nar_source s)
      then (let buffer = take n (nar_source s) in
            case checked_add (unat (nar_count s)) (length buffer) of
              None \<Rightarrow> Inl (nar_invalid ''NAR is too large'')
            | Some new_count \<Rightarrow>
                Inr (buffer, s\<lparr>nar_source := drop n (nar_source s),
                       nar_staging := nar_staging s @ buffer,
                       nar_hasher := nar_hasher s @ buffer,
                       nar_count := of_nat new_count\<rparr>))
      else Inl end_of_input)"

definition string_length :: "(io_error, u64, nar_reader) run" where
  "string_length = and_then (nar_read_exact 8) (\<lambda>bs. ok (of_nat (le_nat bs)))"

definition read_padding :: "u64 \<Rightarrow> (io_error, unit, nar_reader) run" where
  "read_padding len =
     and_then (nar_read_exact (padding_length (unat len))) (\<lambda>buffer.
     ensure (\<forall>b\<in>set buffer. b = 0) (IoError UnexpectedEof ''NAR string padding is not zero''))"

definition unexpected_string :: io_error where
  "unexpected_string = invalid_data ''unexpected NAR string''"

function compare_pieces :: "bytes \<Rightarrow> (io_error, unit, nar_reader) run" where
  "compare_pieces remaining =
     (if remaining = [] then ok ()
      else
        let piece = min (length remaining) 4096 in
        and_then (nar_read_exact piece) (\<lambda>buffer.
        and_then (ensure (buffer = take piece remaining) unexpected_string) (\<lambda>_.
        compare_pieces (drop piece remaining))))"
  by pat_completeness auto

termination
  by (relation "measure length") auto

declare compare_pieces.simps [simp del]

definition string_equals :: "bytes \<Rightarrow> (io_error, unit, nar_reader) run" where
  "string_equals expected =
     and_then string_length (\<lambda>len.
     and_then (ensure (len \<le> 64) (IoError UnexpectedEof ''NAR marker exceeds bounded parser size'')) (\<lambda>_.
     and_then (ensure (len = of_nat (length expected)) unexpected_string) (\<lambda>_.
     and_then (compare_pieces expected) (\<lambda>_.
     read_padding len))))"

function skip_pieces :: "nat \<Rightarrow> (io_error, unit, nar_reader) run" where
  "skip_pieces remaining =
     (if remaining = 0 then ok ()
      else
        let piece = min remaining 8192 in
        and_then (nar_read_exact piece) (\<lambda>_. skip_pieces (remaining - piece)))"
  by pat_completeness auto

termination
  by (relation "measure id") auto

declare skip_pieces.simps [simp del]

definition skip_string :: "(io_error, u64, nar_reader) run" where
  "skip_string =
     and_then string_length (\<lambda>len.
     and_then (skip_pieces (unat len)) (\<lambda>_.
     and_then (read_padding len) (\<lambda>_.
     ok len)))"

definition copy_string :: "(io_error, unit, nar_reader) run" where
  "copy_string = and_then skip_string (\<lambda>_. ok ())"

definition read_bounded_string :: "u64 \<Rightarrow> (io_error, bytes, nar_reader) run" where
  "read_bounded_string maximum =
     and_then string_length (\<lambda>len.
     and_then (ensure (\<not> maximum < len) (nar_invalid ''NAR string exceeds parser limit'')) (\<lambda>_.
     and_then (nar_read_exact (unat len)) (\<lambda>value.
     and_then (read_padding len) (\<lambda>_.
     ok value))))"

definition read_string_word :: "(io_error, bytes, nar_reader) run" where
  "read_string_word = read_bounded_string 64"

definition nar_finish :: "(bytes \<Rightarrow> bytes) \<Rightarrow> nar_reader \<Rightarrow> nar_fingerprint" where
  "nar_finish sha256 s = \<lparr>nar_sha256 = sha256 (nar_hasher s), fingerprint_size = nar_count s\<rparr>"

section \<open>Nodes\<close>

definition text_root_error :: io_error where
  "text_root_error = nar_invalid ''text NAR root must be a non-executable regular file''"

definition parse_regular :: "bool \<Rightarrow> (io_error, unit, nar_reader) run" where
  "parse_regular text_root =
     and_then read_string_word (\<lambda>marker.
     and_then
       (if marker = ascii ''executable'' then
          and_then (ensure (\<not> text_root) text_root_error) (\<lambda>_.
          and_then read_string_word (\<lambda>value.
          and_then (ensure (value = []) (nar_invalid ''NAR executable marker must be empty'')) (\<lambda>_.
          and_then read_string_word (\<lambda>word.
          ensure (word = ascii ''contents'') (nar_invalid ''regular NAR node lacks contents'')))))
        else ensure (marker = ascii ''contents'') (nar_invalid ''regular NAR node lacks contents'')) (\<lambda>_.
     copy_string))"

definition parse_symlink :: "(io_error, unit, nar_reader) run" where
  "parse_symlink =
     and_then (string_equals (ascii ''target'')) (\<lambda>_.
     and_then (read_bounded_string 4095) (\<lambda>target.
     ensure (\<not> (target = [] \<or> 0 \<in> set target)) (nar_invalid ''invalid NAR symlink target'')))"

definition truncated_node :: "io_error \<Rightarrow> io_error" where
  "truncated_node e =
     (if io_error_kind e = InvalidData \<and> io_error_message e = ''unexpected NAR string''
      then IoError UnexpectedEof ''NAR node is truncated'' else e)"

text \<open>Everything \<^verbatim>\<open>parse_node\<close> does before it looks at the node type.\<close>

definition open_node :: "nat \<Rightarrow> bool \<Rightarrow> (io_error, bytes, nar_reader) run" where
  "open_node depth text_root =
     and_then (ensure (depth < 64) (nar_invalid ''NAR directory nesting is too deep'')) (\<lambda>_.
     and_then (string_equals (ascii ''('')) (\<lambda>_.
     and_then (string_equals (ascii ''type'')) (\<lambda>_.
     and_then read_string_word (\<lambda>node_type.
     and_then (ensure (\<not> (text_root \<and> node_type \<noteq> ascii ''regular'')) text_root_error) (\<lambda>_.
     ok node_type)))))"

definition parse_leaf :: "bytes \<Rightarrow> bool \<Rightarrow> (io_error, unit, nar_reader) run" where
  "parse_leaf node_type text_root =
     and_then
       (if node_type = ascii ''regular'' then parse_regular text_root
        else if node_type = ascii ''symlink'' then parse_symlink
        else fail_with (nar_invalid ''unknown NAR node type'')) (\<lambda>_.
     map_err truncated_node (string_equals (ascii '')'')))"

definition invalid_entry_name :: "bytes \<Rightarrow> bool" where
  "invalid_entry_name name \<longleftrightarrow>
     name = [] \<or> name = ascii ''.'' \<or> name = ascii ''..'' \<or> 47 \<in> set name \<or> 0 \<in> set name"

text \<open>
  One turn of the loop of \<^verbatim>\<open>parse_directory\<close> up to the node of the entry: the name of the entry,
  or nothing when the directory ends.
\<close>

definition open_entry :: "bytes option \<Rightarrow> (io_error, bytes option, nar_reader) run" where
  "open_entry previous_name =
     and_then read_string_word (\<lambda>marker.
     if marker = ascii '')'' then ok None
     else
       and_then (ensure (marker = ascii ''entry'') (nar_invalid ''unexpected directory entry'')) (\<lambda>_.
       and_then (string_equals (ascii ''('')) (\<lambda>_.
       and_then (string_equals (ascii ''name'')) (\<lambda>_.
       and_then (read_bounded_string 255) (\<lambda>name.
       and_then (ensure (\<not> invalid_entry_name name) (nar_invalid ''invalid NAR directory name'')) (\<lambda>_.
       and_then (ensure (case previous_name of None \<Rightarrow> True | Some previous \<Rightarrow> \<not> name \<le> previous)
                   (nar_invalid ''NAR directory entries are not strictly sorted'')) (\<lambda>_.
       and_then (string_equals (ascii ''node'')) (\<lambda>_.
       ok (Some name)))))))))"


lemma and_then_assoc: "and_then (and_then m f) g = and_then m (\<lambda>x. and_then (f x) g)"
  by (auto simp: and_then_def fun_eq_iff split: sum.splits)

lemma and_then_ok: "and_then (ok x) f = f x"
  by (simp add: and_then_def ok_def fun_eq_iff)

section \<open>What a run of the reader consumes\<close>

definition nar_reads :: "nar_reader \<Rightarrow> bytes \<Rightarrow> nar_reader \<Rightarrow> bool" where
  "nar_reads s bs s' \<longleftrightarrow>
     nar_source s = bs @ nar_source s' \<and> nar_staging s' = nar_staging s @ bs \<and>
     nar_hasher s' = nar_hasher s @ bs \<and> unat (nar_count s') = unat (nar_count s) + length bs"

definition accepts :: "('e, 'a, nar_reader) run \<Rightarrow> ('a \<Rightarrow> bytes \<Rightarrow> bool) \<Rightarrow> bool" where
  "accepts m P \<longleftrightarrow> (\<forall>s x s'. m s = Inr (x, s') \<longleftrightarrow> (\<exists>bs. P x bs \<and> nar_reads s bs s'))"

named_theorems accepts_rule \<open>what the parts of the parser accept\<close>

lemma nar_reads_Nil: "nar_reads s [] s' \<longleftrightarrow> s' = s"
  by (cases s; cases s') (auto simp: nar_reads_def word_unat_eq_iff)

lemma unat_add_of_nat_u64: "unat w + n < usize_limit \<Longrightarrow> unat (w + of_nat n :: u64) = unat w + n"
  using unat_of_nat_u64 [of "unat w + n"] by simp

lemma nar_reads_append: "nar_reads s (a @ b) s2 \<longleftrightarrow> (\<exists>s1. nar_reads s a s1 \<and> nar_reads s1 b s2)"
proof
  assume r: "nar_reads s (a @ b) s2"
  let ?s1 = "\<lparr>nar_source = b @ nar_source s2, nar_staging = nar_staging s @ a,
    nar_hasher = nar_hasher s @ a, nar_count = nar_count s + of_nat (length a)\<rparr>"
  have "unat (nar_count s) + length a < usize_limit"
    using r unat_u64_less [of "nar_count s2"] by (simp add: nar_reads_def)
  then have "unat (nar_count s + of_nat (length a)) = unat (nar_count s) + length a"
    by (rule unat_add_of_nat_u64)
  then have "nar_reads s a ?s1 \<and> nar_reads ?s1 b s2" using r by (simp add: nar_reads_def)
  then show "\<exists>s1. nar_reads s a s1 \<and> nar_reads s1 b s2" by blast
qed (auto simp: nar_reads_def)

lemma nar_reads_trans: "nar_reads s a s1 \<Longrightarrow> nar_reads s1 b s2 \<Longrightarrow> nar_reads s (a @ b) s2"
  by (auto simp: nar_reads_append)

lemma nar_reads_length: "nar_reads s bs s' \<Longrightarrow> length (nar_source s) = length bs + length (nar_source s')"
  by (simp add: nar_reads_def)

lemma acceptsD: "accepts m P \<Longrightarrow> m s = Inr (x, s') \<longleftrightarrow> (\<exists>bs. P x bs \<and> nar_reads s bs s')"
  by (simp add: accepts_def)

lemma accepts_cong: "accepts m P \<Longrightarrow> (\<And>x bs. P x bs \<longleftrightarrow> Q x bs) \<Longrightarrow> accepts m Q"
  by (simp add: accepts_def)

lemma accepts_basic [accepts_rule]:
  "accepts (ok y) (\<lambda>x bs. x = y \<and> bs = [])"
  "accepts (ensure c e) (\<lambda>x bs. c \<and> bs = [])"
  "accepts (fail_with e') (\<lambda>x bs. False)"
  by (auto simp: accepts_def reader_iff nar_reads_Nil)

lemma accepts_if [accepts_rule]:
  "accepts m P \<Longrightarrow> accepts m' P' \<Longrightarrow> accepts (if c then m else m') (\<lambda>x bs. if c then P x bs else P' x bs)"
  by simp

lemma accepts_map_err [accepts_rule]: "accepts m P \<Longrightarrow> accepts (map_err f m) P"
  by (simp add: accepts_def map_err_Inr)

lemma accepts_and_then [accepts_rule]:
  assumes "accepts m P" and "\<And>x. accepts (k x) (Q x)"
  shows "accepts (and_then m k) (\<lambda>y bs. \<exists>x b1 b2. P x b1 \<and> Q x y b2 \<and> bs = b1 @ b2)"
  unfolding accepts_def and_then_Inr acceptsD [OF assms(1)] acceptsD [OF assms(2)]
proof (intro allI)
  fix s y s'
  show "(\<exists>x s1. (\<exists>bs. P x bs \<and> nar_reads s bs s1) \<and> (\<exists>bs. Q x y bs \<and> nar_reads s1 bs s')) \<longleftrightarrow>
    (\<exists>bs. (\<exists>x b1 b2. P x b1 \<and> Q x y b2 \<and> bs = b1 @ b2) \<and> nar_reads s bs s')"
    (is "?L = ?R")
  proof
    assume ?L
    then obtain x s1 b1 b2 where r: "P x b1" "nar_reads s b1 s1" "Q x y b2" "nar_reads s1 b2 s'" by blast
    then have "nar_reads s (b1 @ b2) s'" unfolding nar_reads_append by blast
    then show ?R using r by blast
  next
    assume ?R
    then obtain x b1 b2 where "P x b1" "Q x y b2" "nar_reads s (b1 @ b2) s'" by blast
    then show ?L unfolding nar_reads_append by blast
  qed
qed

lemma accepts_read_exact [accepts_rule]: "accepts (nar_read_exact n) (\<lambda>x bs. length x = n \<and> bs = x)"
proof -
  have "nar_read_exact n s = Inr (x, s') \<longleftrightarrow> length x = n \<and> nar_reads s x s'" (is "?l \<longleftrightarrow> ?r") for s x s'
  proof
    assume ?l then show ?r
      by (cases s) (auto simp: nar_read_exact_def nar_reads_def Let_def unat_add_of_nat_u64
          split: if_splits option.splits)
  next
    assume r: ?r
    have lim: "unat (nar_count s) + length x < usize_limit"
      using r unat_u64_less [of "nar_count s'"] by (simp add: nar_reads_def)
    then have "unat (nar_count s') = unat (of_nat (unat (nar_count s) + length x) :: u64)"
      using r unat_of_nat_u64 by (simp add: nar_reads_def del: of_nat_add)
    then have c: "nar_count s' = of_nat (unat (nar_count s) + length x)"
      by (simp only: word_unat_eq_iff)
    show ?l
    proof -
      have src: "take n (nar_source s) = x" "drop n (nar_source s) = nar_source s'" "n \<le> length (nar_source s)"
        using r by (auto simp: nar_reads_def)
      let ?s = "s\<lparr>nar_source := nar_source s', nar_staging := nar_staging s @ x, nar_hasher := nar_hasher s @ x,
          nar_count := of_nat (unat (nar_count s) + length x)\<rparr>"
      have "nar_read_exact n s = Inr (x, ?s)"
        using src lim r by (simp add: nar_read_exact_def checked_add_def del: of_nat_add)
      moreover have "?s = s'"
        using r c by (intro nar_reader.equality) (simp_all add: nar_reads_def)
      ultimately show ?thesis by (simp only:)
    qed
  qed
  then show ?thesis by (auto simp: accepts_def)
qed

lemma accepts_length [accepts_rule]: "accepts string_length (\<lambda>w bs. bs = enc_integer w)"
  unfolding string_length_def
  by (rule accepts_cong, (rule accepts_rule)+) (use integer_bytes_iff in auto)

lemma accepts_padding [accepts_rule]:
  "accepts (read_padding len) (\<lambda>x bs. bs = replicate (padding_length (unat len)) 0)"
  unfolding read_padding_def
  by (rule accepts_cong, (rule accepts_rule)+) (auto simp: replicate_eqI)

lemma accepts_compare [accepts_rule]: "accepts (compare_pieces xs) (\<lambda>x bs. bs = xs)"
proof (induction xs rule: compare_pieces.induct)
  case (1 xs)
  show ?case
  proof (cases "xs = []")
    case True
    then show ?thesis by (subst compare_pieces.simps) (simp add: accepts_def reader_iff nar_reads_Nil)
  next
    case False
    have IH: "accepts (compare_pieces (drop (min (length xs) 4096) xs)) (\<lambda>x bs. bs = drop (min (length xs) 4096) xs)"
      using 1 [OF False refl] .
    have "accepts (and_then (nar_read_exact (min (length xs) 4096)) (\<lambda>buffer.
        and_then (ensure (buffer = take (min (length xs) 4096) xs) unexpected_string) (\<lambda>_.
        compare_pieces (drop (min (length xs) 4096) xs)))) (\<lambda>x bs. bs = xs)"
      by (rule accepts_cong, (rule IH accepts_rule)+) auto
    then show ?thesis using False by (subst compare_pieces.simps) (simp add: Let_def)
  qed
qed

lemma accepts_skip [accepts_rule]: "accepts (skip_pieces n) (\<lambda>x bs. length bs = n)"
proof (induction n rule: skip_pieces.induct)
  case (1 n)
  show ?case
  proof (cases "n = 0")
    case True
    then show ?thesis by (subst skip_pieces.simps) (simp add: accepts_def reader_iff nar_reads_Nil)
  next
    case False
    have IH: "accepts (skip_pieces (n - min n 8192)) (\<lambda>x bs. length bs = n - min n 8192)"
      using 1 [OF False refl] .
    have "accepts (and_then (nar_read_exact (min n 8192)) (\<lambda>_. skip_pieces (n - min n 8192)))
        (\<lambda>x bs. length bs = n)"
    proof (rule accepts_cong, (rule IH accepts_rule)+, goal_cases)
      case (1 x bs)
      show ?case
      proof
        assume "length bs = n"
        then show "\<exists>y b1 b2. (length y = min n 8192 \<and> b1 = y) \<and> length b2 = n - min n 8192 \<and> bs = b1 @ b2"
          by (intro exI [of _ "take (min n 8192) bs"] exI [of _ "drop (min n 8192) bs"]) auto
      qed auto
    qed
    then show ?thesis using False by (subst skip_pieces.simps) (simp add: Let_def)
  qed
qed

lemma accepts_equals:
  "length xs \<le> 64 \<Longrightarrow> accepts (string_equals xs) (\<lambda>x bs. bs = enc_byte_string xs)"
  unfolding string_equals_def
  by (rule accepts_cong, (rule accepts_rule)+)
     (auto simp: enc_byte_string_def unat_of_nat word_le_nat_alt)

lemma accepts_marker [accepts_rule]:
  "accepts (string_equals (ascii ''('')) (\<lambda>x bs. bs = enc_byte_string (ascii ''(''))"
  "accepts (string_equals (ascii '')'')) (\<lambda>x bs. bs = enc_byte_string (ascii '')''))"
  "accepts (string_equals (ascii ''type'')) (\<lambda>x bs. bs = enc_byte_string (ascii ''type''))"
  "accepts (string_equals (ascii ''target'')) (\<lambda>x bs. bs = enc_byte_string (ascii ''target''))"
  "accepts (string_equals (ascii ''name'')) (\<lambda>x bs. bs = enc_byte_string (ascii ''name''))"
  "accepts (string_equals (ascii ''node'')) (\<lambda>x bs. bs = enc_byte_string (ascii ''node''))"
  "accepts (string_equals (ascii ''nix-archive-1'')) (\<lambda>x bs. bs = enc_byte_string (ascii ''nix-archive-1''))"
  by (rule accepts_equals, simp)+

lemma accepts_bounded [accepts_rule]:
  "accepts (read_bounded_string k) (\<lambda>x bs. length x \<le> unat k \<and> bs = enc_byte_string x)"
  unfolding read_bounded_string_def
proof (rule accepts_cong, (rule accepts_rule)+, goal_cases)
  case (1 x bs)
  have "unat (of_nat (length x) :: u64) = length x" if "length x \<le> unat k"
    using that unat_u64_less [of k] by (simp add: unat_of_nat_u64)
  then show ?case by (auto simp: enc_byte_string_def word_le_nat_alt not_less)
qed

lemma accepts_word [accepts_rule]:
  "accepts read_string_word (\<lambda>x bs. length x \<le> 64 \<and> bs = enc_byte_string x)"
  using accepts_bounded [of 64] by (simp add: read_string_word_def)

lemma accepts_copy [accepts_rule]:
  "accepts copy_string (\<lambda>x bs. \<exists>c. length c < usize_limit \<and> bs = enc_byte_string c)"
  unfolding copy_string_def skip_string_def
proof (rule accepts_cong, (rule accepts_rule)+, goal_cases)
  case (1 x bs)
  have "length c = unat w \<longleftrightarrow> length c < usize_limit \<and> w = of_nat (length c)" for c :: bytes and w :: u64
    using unat_u64_less [of w] by (auto simp: unat_of_nat_u64)
  then show ?case by (auto simp: enc_byte_string_def unat_of_nat_u64)
qed



lemma accepts_word_case:
  assumes "accepts (k a) P" and "accepts (k b) Q"
    and "\<And>m. m \<noteq> a \<Longrightarrow> m \<noteq> b \<Longrightarrow> accepts (k m) (\<lambda>_ _. False)"
    and "a \<noteq> b" and "length a \<le> 64" and "length b \<le> 64"
  shows "accepts (and_then read_string_word k) (\<lambda>y bs.
    (\<exists>r. P y r \<and> bs = enc_byte_string a @ r) \<or> (\<exists>r. Q y r \<and> bs = enc_byte_string b @ r))"
proof -
  have "accepts (k m) (\<lambda>y r. m = a \<and> P y r \<or> m = b \<and> Q y r)" for m
    using assms(1-4) by (cases "m = a"; cases "m = b") simp_all
  from accepts_and_then [OF accepts_word this] show ?thesis
    by (rule accepts_cong) (use assms(5,6) in blast)
qed

definition enc_regular :: "bool \<Rightarrow> bytes \<Rightarrow> bytes" where
  "enc_regular executable contents =
     (if executable then enc_byte_string (ascii ''executable'') @ enc_byte_string [] else []) @
     enc_byte_string (ascii ''contents'') @ enc_byte_string contents"

lemma accepts_regular [accepts_rule]:
  "accepts (parse_regular t)
     (\<lambda>x bs. \<exists>ex c. \<not> (t \<and> ex) \<and> length c < usize_limit \<and> bs = enc_regular ex c)"
proof -
  let ?C = "\<lambda>(x :: unit) bs. \<exists>c. length c < usize_limit \<and> bs = enc_byte_string c"
  have ne: "ascii ''executable'' \<noteq> ascii ''contents''" by code_simp
  have "accepts (and_then (and_then (ensure (\<not> t) text_root_error) (\<lambda>_.
          and_then read_string_word (\<lambda>value.
          and_then (ensure (value = []) (nar_invalid ''NAR executable marker must be empty'')) (\<lambda>_.
          and_then read_string_word (\<lambda>word.
          ensure (word = ascii ''contents'') (nar_invalid ''regular NAR node lacks contents'')))))) (\<lambda>_. copy_string))
      (\<lambda>x bs. \<not> t \<and> (\<exists>r. ?C x r \<and> bs = enc_byte_string [] @ enc_byte_string (ascii ''contents'') @ r))"
    by (rule accepts_cong, (rule accepts_rule)+) auto
  note 1 = this
  have 2: "accepts (and_then (ensure True (nar_invalid ''regular NAR node lacks contents'')) (\<lambda>_. copy_string)) ?C"
    by (rule accepts_cong, (rule accepts_rule)+) auto
  have 3: "accepts (and_then (ensure False (nar_invalid ''regular NAR node lacks contents'')) (\<lambda>_. copy_string))
      (\<lambda>_ _. False)"
    by (rule accepts_cong, (rule accepts_rule)+) auto
  show ?thesis
    unfolding parse_regular_def
    by (rule accepts_cong [OF accepts_word_case [where a = "ascii ''executable''" and b = "ascii ''contents''"]])
       (use 1 2 3 ne in \<open>auto simp: enc_regular_def ex_bool_eq\<close>)
qed

lemma accepts_symlink [accepts_rule]:
  "accepts parse_symlink (\<lambda>x bs. \<exists>t. t \<noteq> [] \<and> 0 \<notin> set t \<and> length t \<le> 4095 \<and>
     bs = enc_byte_string (ascii ''target'') @ enc_byte_string t)"
  unfolding parse_symlink_def
  by (rule accepts_cong, (rule accepts_rule)+) auto

definition enc_open :: bytes where
  "enc_open = enc_byte_string (ascii ''('') @ enc_byte_string (ascii ''type'')"

lemma accepts_open_node [accepts_rule]:
  "accepts (open_node d t) (\<lambda>k bs. d < 64 \<and> length k \<le> 64 \<and> (t \<longrightarrow> k = ascii ''regular'') \<and>
     bs = enc_open @ enc_byte_string k)"
  unfolding open_node_def enc_open_def
  by (rule accepts_cong, (rule accepts_rule)+) auto

lemma accepts_leaf:
  "accepts (parse_leaf k t) (\<lambda>x bs.
     (\<exists>ex c. k = ascii ''regular'' \<and> \<not> (t \<and> ex) \<and> length c < usize_limit \<and>
        bs = enc_regular ex c @ enc_byte_string (ascii '')'')) \<or>
     (\<exists>target. k = ascii ''symlink'' \<and> target \<noteq> [] \<and> 0 \<notin> set target \<and> length target \<le> 4095 \<and>
        bs = enc_byte_string (ascii ''target'') @ enc_byte_string target @ enc_byte_string (ascii '')'')))"
  unfolding parse_leaf_def
proof (rule accepts_cong, (rule accepts_rule)+, goal_cases)
  case (1 x bs)
  have ne: "ascii ''regular'' \<noteq> ascii ''symlink''" by code_simp
  show ?case using ne by (auto split: if_splits)
qed

definition enc_entry_head :: "bytes \<Rightarrow> bytes" where
  "enc_entry_head name =
     enc_byte_string (ascii ''entry'') @ enc_byte_string (ascii ''('') @ enc_byte_string (ascii ''name'') @
     enc_byte_string name @ enc_byte_string (ascii ''node'')"

definition entry_name_ok :: "bytes \<Rightarrow> bool" where
  "entry_name_ok name \<longleftrightarrow> \<not> invalid_entry_name name \<and> length name \<le> 255"

lemma accepts_open_entry:
  "accepts (open_entry prev) (\<lambda>r bs. case r of
     None \<Rightarrow> bs = enc_byte_string (ascii '')'')
   | Some name \<Rightarrow> entry_name_ok name \<and> (\<forall>p. prev = Some p \<longrightarrow> p < name) \<and> bs = enc_entry_head name)"
  unfolding open_entry_def
proof (rule accepts_cong, (rule accepts_rule)+, goal_cases)
  case (1 r bs)
  have ne: "ascii '')'' \<noteq> ascii ''entry''" by code_simp
  show ?case using ne
    by (cases r; cases prev)
       (auto simp: entry_name_ok_def enc_entry_head_def not_le split: if_splits intro!: exI [of _ "ascii ''entry''"])
qed

lemma open_node_shrinks: "open_node d t s = Inr (k, s') \<Longrightarrow> length (nar_source s') < length (nar_source s)"
  unfolding acceptsD [OF accepts_open_node] by (auto dest!: nar_reads_length simp: enc_byte_string_def enc_open_def)

lemma open_entry_shrinks: "open_entry p s = Inr (r, s') \<Longrightarrow> length (nar_source s') < length (nar_source s)"
  unfolding acceptsD [OF accepts_open_entry]
  by (auto dest!: nar_reads_length simp: enc_byte_string_def enc_entry_head_def split: option.splits)

lemma accepts_no_growth: "accepts m P \<Longrightarrow> m s = Inr (x, s') \<Longrightarrow> length (nar_source s') \<le> length (nar_source s)"
  by (auto simp: acceptsD dest: nar_reads_length)

section \<open>Recursive descent\<close>

text \<open>
  The loop goes on from the state that the nested call leaves; that no call gives input back is proved
  on the domain of the functions first.
\<close>

function parse_node :: "nat \<Rightarrow> bool \<Rightarrow> (io_error, unit, nar_reader) run"
and parse_directory :: "nat \<Rightarrow> bytes option \<Rightarrow> (io_error, unit, nar_reader) run" where
  "parse_node depth text_root s =
     (case open_node depth text_root s of
        Inl e \<Rightarrow> Inl e
      | Inr (node_type, s1) \<Rightarrow>
          if node_type = ascii ''directory'' then parse_directory depth None s1
          else parse_leaf node_type text_root s1)"
| "parse_directory depth previous_name s =
     (case open_entry previous_name s of
        Inl e \<Rightarrow> Inl e
      | Inr (None, s1) \<Rightarrow> Inr ((), s1)
      | Inr (Some name, s1) \<Rightarrow>
          (case parse_node (depth + 1) False s1 of
             Inl e \<Rightarrow> Inl e
           | Inr (_, s2) \<Rightarrow>
               (case string_equals (ascii '')'') s2 of
                  Inl e \<Rightarrow> Inl e
                | Inr (_, s3) \<Rightarrow> parse_directory depth (Some name) s3)))"
  by pat_completeness auto


termination
proof -
  have shrink: "parse_node_parse_directory_dom (Inl (d, t, s)) \<Longrightarrow> parse_node d t s = Inr (u, s') \<Longrightarrow>
       length (nar_source s') \<le> length (nar_source s)"
    "parse_node_parse_directory_dom (Inr (d, p, s)) \<Longrightarrow> parse_directory d p s = Inr (u, s') \<Longrightarrow>
       length (nar_source s') \<le> length (nar_source s)" for d t p s u s'
  proof (induction d t s and d p s arbitrary: u s' and u s' rule: parse_node_parse_directory.pinduct)
    case (1 d t s)
    from 1(3) obtain k s1 where o: "open_node d t s = Inr (k, s1)"
      and r: "(if k = ascii ''directory'' then parse_directory d None s1 else parse_leaf k t s1) = Inr (u, s')"
      by (auto simp: parse_node.psimps [OF 1(1)] split: sum.splits)
    have "length (nar_source s') \<le> length (nar_source s1)"
    proof (cases "k = ascii ''directory''")
      case True
      then show ?thesis using 1(2) [OF o refl] r by simp
    next
      case False
      then show ?thesis using r accepts_no_growth [OF accepts_leaf] by simp
    qed
    then show ?case using open_node_shrinks [OF o] by simp
  next
    case (2 d p s)
    from 2(4) obtain r s1 where o: "open_entry p s = Inr (r, s1)" by (auto simp: parse_directory.psimps [OF 2(1)] split: sum.splits)
    show ?case
    proof (cases r)
      case None
      then show ?thesis using 2(4) o open_entry_shrinks [OF o] by (auto simp: parse_directory.psimps [OF 2(1)])
    next
      case (Some name)
      with 2(4) o obtain s2 s3 where n: "parse_node (d + 1) False s1 = Inr ((), s2)"
        and e: "string_equals (ascii '')'') s2 = Inr ((), s3)" and r: "parse_directory d (Some name) s3 = Inr (u, s')"
        by (auto simp: parse_directory.psimps [OF 2(1)] split: sum.splits)
      have "length (nar_source s2) \<le> length (nar_source s1)" using 2(2) [OF o refl Some n] .
      moreover have "length (nar_source s') \<le> length (nar_source s3)" using 2(3) [OF o refl Some n refl e refl r] .
      ultimately show ?thesis
        using open_entry_shrinks [OF o] accepts_no_growth [OF accepts_marker(2) e] by simp
    qed
  qed
  show ?thesis
    by (relation "measure (\<lambda>a. case a of Inl (d, t, s) \<Rightarrow> length (nar_source s) | Inr (d, p, s) \<Rightarrow> length (nar_source s))")
       (auto dest!: open_node_shrinks open_entry_shrinks shrink accepts_no_growth [OF accepts_marker(2)])
qed

declare parse_node.simps [simp del] parse_directory.simps [simp del]


section \<open>Entry points\<close>

text \<open>The one-byte read after the archive finds no byte exactly when the source is exhausted.\<close>

definition no_trailing_bytes :: "(io_error, unit, nar_reader) run" where
  "no_trailing_bytes s = (if nar_source s = [] then Inr ((), s) else Inl (nar_invalid ''trailing bytes after NAR''))"

definition stage_nar_with_text_root ::
  "(bytes \<Rightarrow> bytes) \<Rightarrow> bytes \<Rightarrow> bool \<Rightarrow> io_error + (nar_fingerprint \<times> bytes)" where
  "stage_nar_with_text_root sha256 src text_root =
     (case and_then (string_equals (ascii ''nix-archive-1'')) (\<lambda>_.
           and_then (parse_node 0 text_root) (\<lambda>_.
           no_trailing_bytes)) (new_nar_reader src) of
        Inl e \<Rightarrow> Inl e
      | Inr (_, s) \<Rightarrow> Inr (nar_finish sha256 s, nar_staging s))"

definition stage_nar :: "(bytes \<Rightarrow> bytes) \<Rightarrow> bytes \<Rightarrow> io_error + (nar_fingerprint \<times> bytes)" where
  "stage_nar sha256 src = stage_nar_with_text_root sha256 src False"

definition stage_text_nar :: "(bytes \<Rightarrow> bytes) \<Rightarrow> bytes \<Rightarrow> io_error + (nar_fingerprint \<times> bytes)" where
  "stage_text_nar sha256 src = stage_nar_with_text_root sha256 src True"

definition regular_marker :: "(io_error, unit, nar_reader) run" where
  "regular_marker =
     and_then read_string_word (\<lambda>marker.
     if marker = ascii ''executable'' then
       and_then read_string_word (\<lambda>value.
       and_then (ensure (value = []) (nar_invalid ''invalid executable regular NAR'')) (\<lambda>_.
       and_then read_string_word (\<lambda>word.
       ensure (word = ascii ''contents'') (nar_invalid ''invalid executable regular NAR''))))
     else ensure (marker = ascii ''contents'') (nar_invalid ''regular NAR node lacks contents''))"

definition read_regular_nar_with_fingerprint ::
  "(bytes \<Rightarrow> bytes) \<Rightarrow> bytes \<Rightarrow> u64 \<Rightarrow> io_error + (bytes \<times> nar_fingerprint)" where
  "read_regular_nar_with_fingerprint sha256 src maximum_contents =
     (case and_then (string_equals (ascii ''nix-archive-1'')) (\<lambda>_.
           and_then (string_equals (ascii ''('')) (\<lambda>_.
           and_then (string_equals (ascii ''type'')) (\<lambda>_.
           and_then read_string_word (\<lambda>node_type.
           and_then (ensure (node_type = ascii ''regular'') (nar_invalid ''NAR root is not a regular file'')) (\<lambda>_.
           and_then regular_marker (\<lambda>_.
           and_then (read_bounded_string maximum_contents) (\<lambda>contents.
           and_then (string_equals (ascii '')'')) (\<lambda>_.
           and_then no_trailing_bytes (\<lambda>_.
           ok contents))))))))) (new_nar_reader src) of
        Inl e \<Rightarrow> Inl e
      | Inr (contents, s) \<Rightarrow> Inr (contents, nar_finish sha256 s))"

definition read_regular_nar :: "(bytes \<Rightarrow> bytes) \<Rightarrow> bytes \<Rightarrow> u64 \<Rightarrow> io_error + bytes" where
  "read_regular_nar sha256 src maximum_contents =
     (case read_regular_nar_with_fingerprint sha256 src maximum_contents of
        Inl e \<Rightarrow> Inl e | Inr (contents, _) \<Rightarrow> Inr contents)"

section \<open>The archive format\<close>

datatype nar_node =
    NarRegular bool bytes
  | NarSymlink bytes
  | NarDirectory "(bytes \<times> nar_node) list"

fun nar_node_bytes :: "nar_node \<Rightarrow> bytes" where
  "nar_node_bytes (NarRegular executable contents) =
     enc_open @ enc_byte_string (ascii ''regular'') @ enc_regular executable contents @ enc_byte_string (ascii '')'')"
| "nar_node_bytes (NarSymlink target) =
     enc_open @ enc_byte_string (ascii ''symlink'') @ enc_byte_string (ascii ''target'') @
     enc_byte_string target @ enc_byte_string (ascii '')'')"
| "nar_node_bytes (NarDirectory entries) =
     enc_open @ enc_byte_string (ascii ''directory'') @
     concat (map (\<lambda>e. enc_entry_head (fst e) @ nar_node_bytes (snd e) @ enc_byte_string (ascii '')'')) entries) @
     enc_byte_string (ascii '')'')"

fun nar_node_ok :: "nat \<Rightarrow> nar_node \<Rightarrow> bool" where
  "nar_node_ok depth (NarRegular executable contents) \<longleftrightarrow> depth < 64 \<and> length contents < usize_limit"
| "nar_node_ok depth (NarSymlink target) \<longleftrightarrow>
     depth < 64 \<and> target \<noteq> [] \<and> 0 \<notin> set target \<and> length target \<le> 4095"
| "nar_node_ok depth (NarDirectory entries) \<longleftrightarrow>
     depth < 64 \<and> sorted_wrt (<) (map fst entries) \<and>
     (\<forall>e\<in>set entries. entry_name_ok (fst e) \<and> nar_node_ok (depth + 1) (snd e))"

definition nar_bytes :: "nar_node \<Rightarrow> bytes" where
  "nar_bytes node = enc_byte_string (ascii ''nix-archive-1'') @ nar_node_bytes node"

abbreviation entry_bytes :: "bytes \<times> nar_node \<Rightarrow> bytes" where
  "entry_bytes e \<equiv> enc_entry_head (fst e) @ nar_node_bytes (snd e) @ enc_byte_string (ascii '')'')"

definition directory_ok :: "nat \<Rightarrow> bytes option \<Rightarrow> (bytes \<times> nar_node) list \<Rightarrow> bool" where
  "directory_ok depth previous entries \<longleftrightarrow>
     sorted_wrt (<) ((case previous of None \<Rightarrow> [] | Some p \<Rightarrow> [p]) @ map fst entries) \<and>
     (\<forall>e\<in>set entries. entry_name_ok (fst e) \<and> nar_node_ok (depth + 1) (snd e))"

lemma directory_ok_Cons:
  "directory_ok d prev (e # es) \<longleftrightarrow>
     entry_name_ok (fst e) \<and> (\<forall>p. prev = Some p \<longrightarrow> p < fst e) \<and> nar_node_ok (d + 1) (snd e) \<and>
     directory_ok d (Some (fst e)) es"
  by (cases prev) (auto simp: directory_ok_def)

lemma directory_ok_Nil [simp]: "directory_ok d prev []"
  by (cases prev) (auto simp: directory_ok_def)

section \<open>The parser accepts exactly the serializations\<close>

lemma parse_node_iff:
  "parse_node d t s = Inr ((), s') \<longleftrightarrow>
     (\<exists>k s1. open_node d t s = Inr (k, s1) \<and>
        (k = ascii ''directory'' \<and> parse_directory d None s1 = Inr ((), s') \<or>
         k \<noteq> ascii ''directory'' \<and> parse_leaf k t s1 = Inr ((), s')))"
  by (subst parse_node.simps) (auto split: sum.splits)

lemma parse_directory_iff:
  "parse_directory d p s = Inr ((), s') \<longleftrightarrow>
     open_entry p s = Inr (None, s') \<or>
     (\<exists>name s1 s2 s3. open_entry p s = Inr (Some name, s1) \<and> parse_node (d + 1) False s1 = Inr ((), s2) \<and>
        string_equals (ascii '')'') s2 = Inr ((), s3) \<and> parse_directory d (Some name) s3 = Inr ((), s'))"
  by (subst parse_directory.simps) (auto split: sum.splits option.splits)

lemma kind_distinct:
  "ascii ''regular'' \<noteq> ascii ''directory''" "ascii ''symlink'' \<noteq> ascii ''directory''"
  "ascii ''regular'' \<noteq> ascii ''symlink''"
  by code_simp+

lemma parser_sound:
  "parse_node d t s = Inr ((), s') \<Longrightarrow>
     \<exists>node. nar_node_ok d node \<and> (t \<longrightarrow> (\<exists>c. node = NarRegular False c)) \<and> nar_reads s (nar_node_bytes node) s'"
  "parse_directory d p s = Inr ((), s') \<Longrightarrow>
     \<exists>entries. directory_ok d p entries \<and>
       nar_reads s (concat (map entry_bytes entries) @ enc_byte_string (ascii '')'')) s'"
proof (induction d t s and d p s arbitrary: s' and s' rule: parse_node_parse_directory.induct)
  case (1 d t s)
  from 1(2) obtain k s1 where k: "open_node d t s = Inr (k, s1)"
    "k = ascii ''directory'' \<and> parse_directory d None s1 = Inr ((), s') \<or>
     k \<noteq> ascii ''directory'' \<and> parse_leaf k t s1 = Inr ((), s')"
    unfolding parse_node_iff by blast
  then have o: "d < 64" "t \<longrightarrow> k = ascii ''regular''" "nar_reads s (enc_open @ enc_byte_string k) s1"
    by (auto simp: acceptsD [OF accepts_open_node])
  from k(2) show ?case
  proof
    assume dir: "k = ascii ''directory'' \<and> parse_directory d None s1 = Inr ((), s')"
    with 1(1) [OF k(1) refl] obtain entries where e: "directory_ok d None entries"
      "nar_reads s1 (concat (map entry_bytes entries) @ enc_byte_string (ascii '')'')) s'" by blast
    have "nar_reads s (nar_node_bytes (NarDirectory entries)) s'"
      using nar_reads_trans [OF o(3) e(2)] dir by simp
    then show ?thesis
      using o e(1) dir kind_distinct by (intro exI [of _ "NarDirectory entries"]) (auto simp: directory_ok_def)
  next
    assume "k \<noteq> ascii ''directory'' \<and> parse_leaf k t s1 = Inr ((), s')"
    then obtain bs where bs: "nar_reads s1 bs s'" and
      "(\<exists>ex c. k = ascii ''regular'' \<and> \<not> (t \<and> ex) \<and> length c < usize_limit \<and>
        bs = enc_regular ex c @ enc_byte_string (ascii '')'')) \<or>
       (\<exists>target. k = ascii ''symlink'' \<and> target \<noteq> [] \<and> 0 \<notin> set target \<and> length target \<le> 4095 \<and>
        bs = enc_byte_string (ascii ''target'') @ enc_byte_string target @ enc_byte_string (ascii '')''))"
      unfolding acceptsD [OF accepts_leaf] by blast
    then obtain node where n: "nar_node_ok d node" "t \<longrightarrow> (\<exists>c. node = NarRegular False c)"
      "nar_node_bytes node = (enc_open @ enc_byte_string k) @ bs"
    proof (elim disjE exE conjE, goal_cases)
      case (1 ex c)
      show ?case by (rule 1(1) [of "NarRegular ex c"]) (use 1 o in simp_all)
    next
      case (2 target)
      show ?case by (rule 2(1) [of "NarSymlink target"]) (use 2 o kind_distinct in simp_all)
    qed
    then show ?thesis using nar_reads_trans [OF o(3) bs] by (intro exI [of _ node]) (simp add: n)
  qed
next
  case (2 d p s)
  from 2(3) consider "open_entry p s = Inr (None, s')"
    | name s1 s2 s3 where "open_entry p s = Inr (Some name, s1)" "parse_node (d + 1) False s1 = Inr ((), s2)"
        "string_equals (ascii '')'') s2 = Inr ((), s3)" "parse_directory d (Some name) s3 = Inr ((), s')"
    by (subst (asm) parse_directory_iff) blast
  then show ?case
  proof cases
    case 1
    then show ?thesis by (intro exI [of _ "[]"]) (simp add: acceptsD [OF accepts_open_entry])
  next
    case (2 name s1 s2 s3)
    note r = 2
    from "2.IH"(1) [OF r(1) refl refl r(2)] obtain node where n: "nar_node_ok (d + 1) node"
      "nar_reads s1 (nar_node_bytes node) s2" by auto
    from "2.IH"(2) [OF r(1) refl refl r(2) refl r(3) refl r(4)] obtain es where
      e: "directory_ok d (Some name) es"
        "nar_reads s3 (concat (map entry_bytes es) @ enc_byte_string (ascii '')'')) s'" by blast
    have h: "entry_name_ok name" "\<forall>q. p = Some q \<longrightarrow> q < name" "nar_reads s (enc_entry_head name) s1"
      using r(1) by (auto simp: acceptsD [OF accepts_open_entry])
    have c: "nar_reads s2 (enc_byte_string (ascii '')'')) s3" using r(3) by (simp add: acceptsD [OF accepts_marker(2)])
    have "nar_reads s (concat (map entry_bytes ((name, node) # es)) @ enc_byte_string (ascii '')'')) s'"
      using nar_reads_trans [OF h(3) nar_reads_trans [OF n(2) nar_reads_trans [OF c e(2)]]] by simp
    then show ?thesis using h n(1) e(1)
      by (intro exI [of _ "(name, node) # es"]) (simp add: directory_ok_Cons)
  qed
qed

lemma directory_complete:
  assumes "\<And>e s s'. e \<in> set entries \<Longrightarrow> nar_node_ok (d + 1) (snd e) \<Longrightarrow> nar_reads s (nar_node_bytes (snd e)) s' \<Longrightarrow>
      parse_node (d + 1) False s = Inr ((), s')"
    and "directory_ok d p entries"
    and "nar_reads s (concat (map entry_bytes entries) @ enc_byte_string (ascii '')'')) s'"
  shows "parse_directory d p s = Inr ((), s')"
  using assms
proof (induction entries arbitrary: p s)
  case Nil
  then show ?case by (subst parse_directory_iff) (simp add: acceptsD [OF accepts_open_entry])
next
  case (Cons e es)
  from Cons.prems(3) obtain s1 s2 s3 where r: "nar_reads s (enc_entry_head (fst e)) s1"
    "nar_reads s1 (nar_node_bytes (snd e)) s2" "nar_reads s2 (enc_byte_string (ascii '')'')) s3"
    "nar_reads s3 (concat (map entry_bytes es) @ enc_byte_string (ascii '')'')) s'"
    unfolding list.map concat.simps append_assoc nar_reads_append by blast
  have ok: "entry_name_ok (fst e)" "\<forall>q. p = Some q \<longrightarrow> q < fst e" "nar_node_ok (d + 1) (snd e)"
    "directory_ok d (Some (fst e)) es"
    using Cons.prems(2) by (simp_all add: directory_ok_Cons)
  have "open_entry p s = Inr (Some (fst e), s1)"
    using ok r(1) by (auto simp: acceptsD [OF accepts_open_entry])
  moreover have "parse_node (d + 1) False s1 = Inr ((), s2)" by (rule Cons.prems(1) [OF _ ok(3) r(2)]) simp
  moreover have "string_equals (ascii '')'') s2 = Inr ((), s3)" using r(3) by (simp add: acceptsD [OF accepts_marker(2)])
  moreover have "parse_directory d (Some (fst e)) s3 = Inr ((), s')"
    by (rule Cons.IH [OF _ ok(4) r(4)]) (rule Cons.prems(1), simp_all)
  ultimately show ?case by (subst parse_directory_iff) blast
qed

lemma parser_complete:
  assumes "nar_node_ok d node" and "t \<longrightarrow> (\<exists>c. node = NarRegular False c)" and "nar_reads s (nar_node_bytes node) s'"
  shows "parse_node d t s = Inr ((), s')"
  using assms
proof (induction node arbitrary: d t s s')
  case (NarRegular ex c)
  obtain s1 where "nar_reads s (enc_open @ enc_byte_string (ascii ''regular'')) s1"
    "nar_reads s1 (enc_regular ex c @ enc_byte_string (ascii '')'')) s'"
    using NarRegular(3) nar_reads_append [of s "enc_open @ enc_byte_string (ascii ''regular'')"] by auto
  then show ?case
    unfolding parse_node_iff acceptsD [OF accepts_open_node] acceptsD [OF accepts_leaf]
    using NarRegular(1,2) kind_distinct by (intro exI [of _ "ascii ''regular''"] exI [of _ s1]) auto
next
  case (NarSymlink target)
  obtain s1 where "nar_reads s (enc_open @ enc_byte_string (ascii ''symlink'')) s1"
    "nar_reads s1 (enc_byte_string (ascii ''target'') @ enc_byte_string target @ enc_byte_string (ascii '')'')) s'"
    using NarSymlink(3) nar_reads_append [of s "enc_open @ enc_byte_string (ascii ''symlink'')"] by auto
  then show ?case
    unfolding parse_node_iff acceptsD [OF accepts_open_node] acceptsD [OF accepts_leaf]
    using NarSymlink(1,2) kind_distinct by (intro exI [of _ "ascii ''symlink''"] exI [of _ s1]) auto
next
  case (NarDirectory entries)
  obtain s1 where r: "nar_reads s (enc_open @ enc_byte_string (ascii ''directory'')) s1"
    "nar_reads s1 (concat (map entry_bytes entries) @ enc_byte_string (ascii '')'')) s'"
    using NarDirectory(4) nar_reads_append [of s "enc_open @ enc_byte_string (ascii ''directory'')"] by auto
  have "parse_directory d None s1 = Inr ((), s')"
  proof (rule directory_complete [OF _ _ r(2)])
    show "parse_node (d + 1) False sa = Inr ((), sa')"
      if "e \<in> set entries" "nar_node_ok (d + 1) (snd e)" "nar_reads sa (nar_node_bytes (snd e)) sa'" for e sa sa'
      using NarDirectory(1) [of e "snd e" "d + 1" False sa sa'] that by (cases e) auto
    show "directory_ok d None entries" using NarDirectory(2) by (simp add: directory_ok_def)
  qed
  then show ?case
    unfolding parse_node_iff acceptsD [OF accepts_open_node]
    using NarDirectory(2,3) r(1) by (intro exI [of _ "ascii ''directory''"] exI [of _ s1]) auto
qed

lemma parse_node_exact:
  "accepts (parse_node d t) (\<lambda>x bs. \<exists>node. nar_node_ok d node \<and> (t \<longrightarrow> (\<exists>c. node = NarRegular False c)) \<and>
     bs = nar_node_bytes node)"
  unfolding accepts_def
proof (intro allI iffI, goal_cases)
  case (1 s x s')
  then have "parse_node d t s = Inr ((), s')" by simp
  from parser_sound(1) [OF this] show ?case by blast
next
  case (2 s x s')
  then show ?case using parser_complete by fastforce
qed


text \<open>The fingerprint and the staged bytes of a source that was consumed whole.\<close>

definition whole_fingerprint :: "(bytes \<Rightarrow> bytes) \<Rightarrow> bytes \<Rightarrow> nar_fingerprint" where
  "whole_fingerprint sha256 src = \<lparr>nar_sha256 = sha256 src, fingerprint_size = of_nat (length src)\<rparr>"

lemma nar_reads_whole:
  "nar_reads (new_nar_reader src) bs s \<and> nar_source s = [] \<longleftrightarrow>
     bs = src \<and> length src < usize_limit \<and>
     s = \<lparr>nar_source = [], nar_staging = src, nar_hasher = src, nar_count = of_nat (length src)\<rparr>"
proof -
  have "unat (nar_count s) = length src \<longleftrightarrow> length src < usize_limit \<and> nar_count s = of_nat (length src)"
    using unat_u64_less [of "nar_count s"] by (auto simp: word_unat_eq_iff unat_of_nat_u64)
  then show ?thesis by (cases s) (auto simp: nar_reads_def new_nar_reader_def)
qed

lemma no_trailing_bytes_Inr [reader_iff]: "no_trailing_bytes s = Inr (u, s') \<longleftrightarrow> nar_source s = [] \<and> s' = s"
  by (auto simp: no_trailing_bytes_def)

lemma accepts_whole:
  assumes "accepts m P"
  shows "and_then m (\<lambda>x. and_then no_trailing_bytes (\<lambda>_. ok (f x))) (new_nar_reader src) = Inr (y, s) \<longleftrightarrow>
    (\<exists>x. P x src \<and> y = f x) \<and> length src < usize_limit \<and>
    s = \<lparr>nar_source = [], nar_staging = src, nar_hasher = src, nar_count = of_nat (length src)\<rparr>"
proof -
  have "and_then m (\<lambda>x. and_then no_trailing_bytes (\<lambda>_. ok (f x))) (new_nar_reader src) = Inr (y, s) \<longleftrightarrow>
      (\<exists>x bs. P x bs \<and> y = f x \<and> nar_reads (new_nar_reader src) bs s \<and> nar_source s = [])"
    by (auto simp: reader_iff acceptsD [OF assms])
  then show ?thesis unfolding nar_reads_whole by auto
qed

lemma finish_Inr:
  "(case m of Inl e \<Rightarrow> Inl e | Inr (x, s) \<Rightarrow> Inr (f x s)) = Inr r \<longleftrightarrow> (\<exists>x s. m = Inr (x, s) \<and> r = f x s)"
  by (auto split: sum.splits)

lemma stage_exact:
  "stage_nar_with_text_root sha256 src t = Inr r \<longleftrightarrow>
     (\<exists>node. nar_node_ok 0 node \<and> (t \<longrightarrow> (\<exists>c. node = NarRegular False c)) \<and> src = nar_bytes node) \<and>
     length src < usize_limit \<and> r = (whole_fingerprint sha256 src, src)"
proof -
  let ?m = "and_then (string_equals (ascii ''nix-archive-1'')) (\<lambda>_. parse_node 0 t)"
  have "accepts ?m (\<lambda>x bs. \<exists>node. nar_node_ok 0 node \<and> (t \<longrightarrow> (\<exists>c. node = NarRegular False c)) \<and> bs = nar_bytes node)"
    by (rule accepts_cong, (rule parse_node_exact accepts_rule)+) (auto simp: nar_bytes_def)
  note w = accepts_whole [OF this, where f = "\<lambda>_. ()"]
  have eq: "and_then (string_equals (ascii ''nix-archive-1'')) (\<lambda>_. and_then (parse_node 0 t) (\<lambda>_. no_trailing_bytes)) =
      and_then ?m (\<lambda>x. and_then no_trailing_bytes (\<lambda>_. ok ()))"
    by (auto simp: and_then_def ok_def fun_eq_iff split: sum.splits)
  show ?thesis
    unfolding stage_nar_with_text_root_def finish_Inr eq w
    by (auto simp: nar_finish_def whole_fingerprint_def)
qed

lemma accepts_regular_marker [accepts_rule]:
  "accepts regular_marker (\<lambda>x bs. \<exists>ex. bs = (if ex then enc_byte_string (ascii ''executable'') @ enc_byte_string [] else []) @
     enc_byte_string (ascii ''contents''))"
proof -
  have ne: "ascii ''executable'' \<noteq> ascii ''contents''" by code_simp
  have 1: "accepts (and_then read_string_word (\<lambda>value.
       and_then (ensure (value = []) (nar_invalid ''invalid executable regular NAR'')) (\<lambda>_.
       and_then read_string_word (\<lambda>word.
       ensure (word = ascii ''contents'') (nar_invalid ''invalid executable regular NAR'')))))
     (\<lambda>x bs. bs = enc_byte_string [] @ enc_byte_string (ascii ''contents''))"
    by (rule accepts_cong, (rule accepts_rule)+) auto
  show ?thesis
    unfolding regular_marker_def
    by (rule accepts_cong [OF accepts_word_case [where a = "ascii ''executable''" and b = "ascii ''contents''"
            and Q = "\<lambda>x bs. bs = []"]])
       (use 1 ne accepts_basic(2) [of True] accepts_basic(2) [of False] in \<open>auto simp: ex_bool_eq\<close>)
qed

lemma read_regular_exact:
  "read_regular_nar_with_fingerprint sha256 src k = Inr (contents, fp) \<longleftrightarrow>
     (\<exists>ex. src = nar_bytes (NarRegular ex contents)) \<and> length contents \<le> unat k \<and>
     length src < usize_limit \<and> fp = whole_fingerprint sha256 src"
proof -
  let ?m = "and_then (string_equals (ascii ''nix-archive-1'')) (\<lambda>_.
           and_then (string_equals (ascii ''('')) (\<lambda>_.
           and_then (string_equals (ascii ''type'')) (\<lambda>_.
           and_then read_string_word (\<lambda>node_type.
           and_then (ensure (node_type = ascii ''regular'') (nar_invalid ''NAR root is not a regular file'')) (\<lambda>_.
           and_then regular_marker (\<lambda>_.
           and_then (read_bounded_string k) (\<lambda>contents.
           and_then (string_equals (ascii '')'')) (\<lambda>_.
           ok contents))))))))"
  have "accepts ?m (\<lambda>c bs. (\<exists>ex. bs = nar_bytes (NarRegular ex c)) \<and> length c \<le> unat k)"
  proof (rule accepts_cong, (rule accepts_rule)+, goal_cases)
    case (1 c bs)
    show ?case unfolding ex_bool_eq by (auto simp: nar_bytes_def enc_open_def enc_regular_def)
  qed
  note w = accepts_whole [OF this, where f = "\<lambda>c. c"]
  have eq: "read_regular_nar_with_fingerprint sha256 src k =
      (case and_then ?m (\<lambda>x. and_then no_trailing_bytes (\<lambda>_. ok x)) (new_nar_reader src) of
        Inl e \<Rightarrow> Inl e | Inr (contents, s) \<Rightarrow> Inr (contents, nar_finish sha256 s))"
    unfolding read_regular_nar_with_fingerprint_def
    by (rule arg_cong [where f = "\<lambda>r. case r of Inl e \<Rightarrow> Inl e | Inr (contents, s) \<Rightarrow> Inr (contents, nar_finish sha256 s)"])
       (simp only: and_then_assoc and_then_ok)
  show ?thesis
    unfolding eq finish_Inr w prod.inject by (auto simp: nar_finish_def whole_fingerprint_def)
qed


section \<open>Properties\<close>

text \<open>
  C3: Staging succeeds exactly on the serialization of a well-formed archive tree (nesting below 64,
  entries strictly sorted with valid names, symlink targets bounded and free of zero bytes) with nothing
  after it; the staged copy is the source, the fingerprint is its SHA-256 and its length.
\<close>

theorem stage_nar_accepts_exactly:
  "stage_nar sha256 src = Inr (fingerprint, staged) \<longleftrightarrow>
     (\<exists>node. nar_node_ok 0 node \<and> src = nar_bytes node) \<and> length src < usize_limit \<and>
     staged = src \<and> fingerprint = \<lparr>nar_sha256 = sha256 src, fingerprint_size = of_nat (length src)\<rparr>"
  unfolding stage_nar_def stage_exact by (auto simp: whole_fingerprint_def)

text \<open>
  C23: Staging a text object succeeds exactly on the archive of one non-executable regular file.
\<close>

theorem stage_text_nar_accepts_exactly:
  "stage_text_nar sha256 src = Inr (fingerprint, staged) \<longleftrightarrow>
     (\<exists>contents. src = nar_bytes (NarRegular False contents) \<and> length contents < usize_limit) \<and>
     length src < usize_limit \<and> staged = src \<and>
     fingerprint = \<lparr>nar_sha256 = sha256 src, fingerprint_size = of_nat (length src)\<rparr>"
proof -
  have "(\<exists>node. nar_node_ok 0 node \<and> (True \<longrightarrow> (\<exists>c. node = NarRegular False c)) \<and> src = nar_bytes node) \<longleftrightarrow>
      (\<exists>contents. src = nar_bytes (NarRegular False contents) \<and> length contents < usize_limit)"
    using nar_node_ok.simps(1) [of 0 False] by fastforce
  then show ?thesis unfolding stage_text_nar_def stage_exact by (auto simp: whole_fingerprint_def)
qed

text \<open>
  C22: Reading a regular file back from its archive returns the contents that were archived, executable
  or not, exactly when they fit the limit of the caller.
\<close>

theorem read_regular_nar_accepts_exactly:
  "read_regular_nar sha256 src maximum_contents = Inr contents \<longleftrightarrow>
     (\<exists>executable. src = nar_bytes (NarRegular executable contents)) \<and>
     length contents \<le> unat maximum_contents \<and> length src < usize_limit"
proof -
  have "read_regular_nar sha256 src maximum_contents = Inr contents \<longleftrightarrow>
      (\<exists>fp. read_regular_nar_with_fingerprint sha256 src maximum_contents = Inr (contents, fp))"
    by (auto simp: read_regular_nar_def split: sum.splits)
  then show ?thesis unfolding read_regular_exact by blast
qed

end
