(* ===== verification/Transfer_Frame.thy ===== *)
theory Transfer_Frame
  imports Wire
begin

text \<open>
  The framing of the allocation transfer protocol of \<^verbatim>\<open>telchar/src/nomad/protocol.rs\<close>: frame kinds, the
  binary header, \<^verbatim>\<open>write_frame\<close> and \<^verbatim>\<open>read_frame\<close>, and the phase automaton \<^verbatim>\<open>ProtocolSession\<close>.
\<close>

section \<open>Kinds, directions and phases\<close>

datatype frame_kind =
    Authenticate | InputManifest | ValidPaths | InputRequest | InputNar | BuildStarted
  | LogChunk | OutputMetadata | OutputNar | OutputReceipt | BuildResult

datatype direction = WorkerToGateway | GatewayToWorker

datatype phase =
    AwaitingAuthentication | AwaitingManifest | ResolvingInputs | Building | CollectingOutputs | Complete

primrec frame_kind_code :: "frame_kind \<Rightarrow> nat" where
  "frame_kind_code Authenticate = 1"
| "frame_kind_code InputManifest = 2"
| "frame_kind_code ValidPaths = 3"
| "frame_kind_code InputRequest = 4"
| "frame_kind_code InputNar = 5"
| "frame_kind_code BuildStarted = 6"
| "frame_kind_code LogChunk = 7"
| "frame_kind_code OutputMetadata = 8"
| "frame_kind_code OutputNar = 9"
| "frame_kind_code OutputReceipt = 10"
| "frame_kind_code BuildResult = 11"

definition frame_kind_try_from :: "nat \<Rightarrow> io_error + frame_kind" where
  "frame_kind_try_from v =
     (if v = 1 then Inr Authenticate else if v = 2 then Inr InputManifest
      else if v = 3 then Inr ValidPaths else if v = 4 then Inr InputRequest
      else if v = 5 then Inr InputNar else if v = 6 then Inr BuildStarted
      else if v = 7 then Inr LogChunk else if v = 8 then Inr OutputMetadata
      else if v = 9 then Inr OutputNar else if v = 10 then Inr OutputReceipt
      else if v = 11 then Inr BuildResult
      else Inl (invalid_data ''Nomad transfer frame kind is unsupported''))"

definition invalid_phase :: io_error where
  "invalid_phase = invalid_data ''Nomad transfer frame is invalid for protocol phase''"

text \<open>\<^verbatim>\<open>ProtocolSession::accept\<close>: the phase after a frame, or the refusal.\<close>

definition protocol_accept :: "direction \<Rightarrow> frame_kind \<Rightarrow> phase \<Rightarrow> io_error + phase" where
  "protocol_accept direction kind phase =
     (let arrives = (\<lambda>p d k. phase = p \<and> direction = d \<and> kind = k) in
      if arrives AwaitingAuthentication WorkerToGateway Authenticate then Inr AwaitingManifest
      else if arrives AwaitingManifest GatewayToWorker InputManifest then Inr ResolvingInputs
      else if arrives ResolvingInputs WorkerToGateway ValidPaths \<or>
              arrives ResolvingInputs WorkerToGateway InputRequest \<or>
              arrives ResolvingInputs GatewayToWorker InputNar then Inr ResolvingInputs
      else if arrives ResolvingInputs WorkerToGateway BuildStarted then Inr Building
      else if arrives Building WorkerToGateway LogChunk then Inr Building
      else if arrives Building WorkerToGateway OutputMetadata then Inr CollectingOutputs
      else if arrives Building WorkerToGateway BuildResult then Inr Complete
      else if arrives CollectingOutputs WorkerToGateway OutputMetadata \<or>
              arrives CollectingOutputs WorkerToGateway OutputNar \<or>
              arrives CollectingOutputs GatewayToWorker OutputReceipt then Inr CollectingOutputs
      else if arrives CollectingOutputs WorkerToGateway BuildResult then Inr Complete
      else Inl invalid_phase)"

definition new_protocol_session :: phase where
  "new_protocol_session = AwaitingAuthentication"

definition resolving_inputs :: phase where
  "resolving_inputs = ResolvingInputs"

section \<open>Frames\<close>

record protocol_limits =
  maximum_metadata_bytes :: nat
  maximum_payload_bytes :: nat

record frame =
  frame_kind :: frame_kind
  frame_metadata :: bytes
  frame_payload :: bytes

definition transfer_magic :: bytes where
  "transfer_magic = ascii ''TLNW''"

definition HEADER_BYTES :: nat where
  "HEADER_BYTES = 16"

definition PROTOCOL_VERSION :: nat where
  "PROTOCOL_VERSION = 1"

text \<open>\<^verbatim>\<open>to_be_bytes\<close> and \<^verbatim>\<open>from_be_bytes\<close> at any width.\<close>

definition be_bytes :: "nat \<Rightarrow> nat \<Rightarrow> bytes" where
  "be_bytes k n = rev (le_bytes k n)"

definition be_nat :: "bytes \<Rightarrow> nat" where
  "be_nat bs = le_nat (rev bs)"

definition validate_lengths :: "nat \<Rightarrow> nat \<Rightarrow> protocol_limits \<Rightarrow> bool \<Rightarrow> io_error + unit" where
  "validate_lengths metadata_length payload_length limits wire_input =
     (let error = (\<lambda>message. if wire_input then invalid_data message else invalid_input message) in
      if maximum_metadata_bytes limits < metadata_length
      then Inl (error ''Nomad transfer frame metadata exceeds limit'')
      else if maximum_payload_bytes limits < payload_length
      then Inl (error ''Nomad transfer frame payload exceeds limit'')
      else Inr ())"

definition u32_try_from :: "nat \<Rightarrow> io_error \<Rightarrow> io_error + nat" where
  "u32_try_from n e = (if n < 2 ^ 32 then Inr n else Inl e)"

definition write_frame :: "frame \<Rightarrow> protocol_limits \<Rightarrow> unit writer" where
  "write_frame f limits =
     w_then (w_lift (validate_lengths (length (frame_metadata f)) (length (frame_payload f)) limits False)) (\<lambda>_.
     w_then (w_lift (u32_try_from (length (frame_metadata f))
        (invalid_input ''Nomad transfer frame metadata exceeds limit''))) (\<lambda>metadata_length.
     w_then (w_lift (u32_try_from (length (frame_payload f))
        (invalid_input ''Nomad transfer frame payload exceeds limit''))) (\<lambda>payload_length.
     w_then (emit transfer_magic) (\<lambda>_.
     w_then (emit (be_bytes 2 PROTOCOL_VERSION)) (\<lambda>_.
     w_then (emit (be_bytes 2 (frame_kind_code (frame_kind f)))) (\<lambda>_.
     w_then (emit (be_bytes 4 metadata_length)) (\<lambda>_.
     w_then (emit (be_bytes 4 payload_length)) (\<lambda>_.
     w_then (emit (frame_metadata f)) (\<lambda>_.
     emit (frame_payload f))))))))))"

text \<open>The header is cut at fixed positions; a 32-bit length always fits a \<^verbatim>\<open>usize\<close>.\<close>

definition read_frame :: "protocol_limits \<Rightarrow> (io_error, frame, bytes) run" where
  "read_frame limits =
     and_then (slice_read_exact HEADER_BYTES) (\<lambda>header.
     and_then (ensure (take 4 header = transfer_magic) (invalid_data ''Nomad transfer frame magic is invalid'')) (\<lambda>_.
     and_then (ensure (be_nat (take 2 (drop 4 header)) = PROTOCOL_VERSION)
        (invalid_data ''Nomad transfer protocol version is unsupported'')) (\<lambda>_.
     and_then (lift_result (frame_kind_try_from (be_nat (take 2 (drop 6 header))))) (\<lambda>kind.
     let metadata_length = be_nat (take 4 (drop 8 header));
         payload_length = be_nat (take 4 (drop 12 header)) in
     and_then (lift_result (validate_lengths metadata_length payload_length limits True)) (\<lambda>_.
     and_then (slice_read_exact metadata_length) (\<lambda>metadata.
     and_then (slice_read_exact payload_length) (\<lambda>payload.
     ok \<lparr>frame_kind = kind, frame_metadata = metadata, frame_payload = payload\<rparr>)))))))"

section \<open>Lemmas\<close>

lemma length_be_bytes [simp]: "length (be_bytes k n) = k"
  by (simp add: be_bytes_def)

lemma be_nat_be_bytes: "be_nat (be_bytes k n) = n mod 256 ^ k"
  by (simp add: be_nat_def be_bytes_def le_nat_le_bytes)

lemma be_bytes_be_nat: "length bs = k \<Longrightarrow> be_bytes k (be_nat bs) = bs"
  using le_bytes_le_nat [of "rev bs"] by (simp add: be_nat_def be_bytes_def)

lemma be_nat_bound: "be_nat bs < 256 ^ length bs"
  using le_nat_bound [of "rev bs"] by (simp add: be_nat_def)

lemma be_nat_eq_iff: "length bs = k \<Longrightarrow> n < 256 ^ k \<Longrightarrow> be_nat bs = n \<longleftrightarrow> bs = be_bytes k n"
  using be_bytes_be_nat [of bs k] be_nat_be_bytes [of k n] by auto

lemma frame_kind_code_bound: "frame_kind_code k < 256 ^ 2"
  by (cases k) simp_all

lemma frame_kind_try_from_iff: "frame_kind_try_from v = Inr k \<longleftrightarrow> v = frame_kind_code k"
proof
  assume "frame_kind_try_from v = Inr k"
  then show "v = frame_kind_code k" unfolding frame_kind_try_from_def by (elim if_eqE) auto
next
  assume "v = frame_kind_code k"
  then show "frame_kind_try_from v = Inr k" by (cases k) (simp_all add: frame_kind_try_from_def)
qed

lemma validate_lengths_iff:
  "validate_lengths m p limits wire = Inr u \<longleftrightarrow> m \<le> maximum_metadata_bytes limits \<and> p \<le> maximum_payload_bytes limits"
  by (simp add: validate_lengths_def Let_def not_le)

definition frame_fits :: "frame \<Rightarrow> protocol_limits \<Rightarrow> bool" where
  "frame_fits f limits \<longleftrightarrow>
     length (frame_metadata f) \<le> maximum_metadata_bytes limits \<and> length (frame_metadata f) < 2 ^ 32 \<and>
     length (frame_payload f) \<le> maximum_payload_bytes limits \<and> length (frame_payload f) < 2 ^ 32"

definition frame_bytes :: "frame \<Rightarrow> bytes" where
  "frame_bytes f =
     transfer_magic @ be_bytes 2 1 @ be_bytes 2 (frame_kind_code (frame_kind f)) @
     be_bytes 4 (length (frame_metadata f)) @ be_bytes 4 (length (frame_payload f)) @
     frame_metadata f @ frame_payload f"

lemma write_frame_iff:
  "write_frame f limits out = (Inr (), out') \<longleftrightarrow> frame_fits f limits \<and> out' = out @ frame_bytes f"
  by (auto simp: write_frame_def writer_eval validate_lengths_def u32_try_from_def frame_fits_def
      frame_bytes_def PROTOCOL_VERSION_def Let_def)

lemma slice_read_exact_iff: "slice_read_exact n s = Inr (x, s') \<longleftrightarrow> length x = n \<and> s = x @ s'"
  by (auto simp: slice_read_exact_def)

lemma ex_header:
  "(\<exists>h. length h = 16 \<and> P (take 4 h) (take 2 (drop 4 h)) (take 2 (drop 6 h)) (take 4 (drop 8 h)) (take 4 (drop 12 h)) h) \<longleftrightarrow>
   (\<exists>a b c d e. length a = 4 \<and> length b = 2 \<and> length c = 2 \<and> length d = 4 \<and> length e = 4 \<and>
      P a b c d e (a @ b @ c @ d @ e))" (is "?L = ?R")
proof
  assume ?L
  then obtain h where h: "length h = 16"
    "P (take 4 h) (take 2 (drop 4 h)) (take 2 (drop 6 h)) (take 4 (drop 8 h)) (take 4 (drop 12 h)) h" by blast
  have eq: "h = take 4 h @ take 2 (drop 4 h) @ take 2 (drop 6 h) @ take 4 (drop 8 h) @ take 4 (drop 12 h)"
  proof -
    have e: "take 4 (drop 12 h) = drop 12 h" using h(1) by simp
    have "take 4 (drop 8 h) @ drop 12 h = drop 8 h" "take 2 (drop 6 h) @ drop 8 h = drop 6 h"
      "take 2 (drop 4 h) @ drop 6 h = drop 4 h"
      using append_take_drop_id [of 2 "drop 4 h"] append_take_drop_id [of 2 "drop 6 h"]
        append_take_drop_id [of 4 "drop 8 h"] by simp_all
    then show ?thesis unfolding e by (simp only: append_take_drop_id)
  qed
  have "P (take 4 h) (take 2 (drop 4 h)) (take 2 (drop 6 h)) (take 4 (drop 8 h)) (take 4 (drop 12 h))
      (take 4 h @ take 2 (drop 4 h) @ take 2 (drop 6 h) @ take 4 (drop 8 h) @ take 4 (drop 12 h))"
    using h(2) by (simp only: eq [symmetric])
  moreover have "length (take 4 h) = 4" "length (take 2 (drop 4 h)) = 2" "length (take 2 (drop 6 h)) = 2"
    "length (take 4 (drop 8 h)) = 4" "length (take 4 (drop 12 h)) = 4"
    using h(1) by simp_all
  ultimately show ?R by blast
next
  assume ?R
  then obtain a b c d e where "length a = 4" "length b = 2" "length c = 2" "length d = 4" "length e = 4"
    "P a b c d e (a @ b @ c @ d @ e)" by blast
  then show ?L by (intro exI [of _ "a @ b @ c @ d @ e"]) simp
qed

lemma read_frame_iff:
  "read_frame limits s = Inr (f, r) \<longleftrightarrow> frame_fits f limits \<and> s = frame_bytes f @ r"
proof -
  have "read_frame limits s = Inr (f, r) \<longleftrightarrow> (\<exists>h. length h = 16 \<and> (\<exists>s1. s = h @ s1 \<and>
      take 4 h = transfer_magic \<and> be_nat (take 2 (drop 4 h)) = 1 \<and>
      be_nat (take 2 (drop 6 h)) = frame_kind_code (frame_kind f) \<and>
      be_nat (take 4 (drop 8 h)) \<le> maximum_metadata_bytes limits \<and>
      be_nat (take 4 (drop 12 h)) \<le> maximum_payload_bytes limits \<and>
      length (frame_metadata f) = be_nat (take 4 (drop 8 h)) \<and>
      length (frame_payload f) = be_nat (take 4 (drop 12 h)) \<and> s1 = frame_metadata f @ frame_payload f @ r))"
    unfolding read_frame_def
    by (cases f) (auto simp: reader_iff Let_def slice_read_exact_iff HEADER_BYTES_def PROTOCOL_VERSION_def
        frame_kind_try_from_iff validate_lengths_iff)
  also have "\<dots> \<longleftrightarrow> (\<exists>a b c d e. length a = 4 \<and> length b = 2 \<and> length c = 2 \<and> length d = 4 \<and> length e = 4 \<and>
      (\<exists>s1. s = (a @ b @ c @ d @ e) @ s1 \<and> a = transfer_magic \<and> be_nat b = 1 \<and>
      be_nat c = frame_kind_code (frame_kind f) \<and> be_nat d \<le> maximum_metadata_bytes limits \<and>
      be_nat e \<le> maximum_payload_bytes limits \<and> length (frame_metadata f) = be_nat d \<and>
      length (frame_payload f) = be_nat e \<and> s1 = frame_metadata f @ frame_payload f @ r))"
    by (rule ex_header)
  also have "\<dots> \<longleftrightarrow> frame_fits f limits \<and> s = frame_bytes f @ r" (is "?L = ?R")
  proof
    assume ?L
    then obtain a b c d e where l: "length b = 2" "length c = 2" "length d = 4" "length e = 4"
      and r: "s = (a @ b @ c @ d @ e) @ frame_metadata f @ frame_payload f @ r" "a = transfer_magic" "be_nat b = 1"
        "be_nat c = frame_kind_code (frame_kind f)" "be_nat d \<le> maximum_metadata_bytes limits"
        "be_nat e \<le> maximum_payload_bytes limits" "length (frame_metadata f) = be_nat d"
        "length (frame_payload f) = be_nat e" by blast
    have "b = be_bytes 2 1" "c = be_bytes 2 (frame_kind_code (frame_kind f))"
      "d = be_bytes 4 (length (frame_metadata f))" "e = be_bytes 4 (length (frame_payload f))"
      using be_bytes_be_nat [OF l(1)] be_bytes_be_nat [OF l(2)] be_bytes_be_nat [OF l(3)] be_bytes_be_nat [OF l(4)] r
      by simp_all
    moreover have "be_nat d < 2 ^ 32" "be_nat e < 2 ^ 32" using be_nat_bound [of d] be_nat_bound [of e] l by simp_all
    ultimately show ?R using r by (simp add: frame_fits_def frame_bytes_def)
  next
    assume ?R
    then show ?L using frame_kind_code_bound [of "frame_kind f"]
      by (intro exI [of _ transfer_magic] exI [of _ "be_bytes 2 1"]
          exI [of _ "be_bytes 2 (frame_kind_code (frame_kind f))"]
          exI [of _ "be_bytes 4 (length (frame_metadata f))"] exI [of _ "be_bytes 4 (length (frame_payload f))"])
         (auto simp: frame_fits_def frame_bytes_def be_nat_be_bytes transfer_magic_def)
  qed
  finally show ?thesis .
qed

section \<open>Properties\<close>

text \<open>
  C27: Reading a frame accepts exactly what writing it emits under the same limits, and leaves the rest
  of the input.
\<close>

theorem frame_codec_exact:
  "read_frame limits s = Inr (f, r) \<longleftrightarrow> (\<exists>bs. write_frame f limits [] = (Inr (), bs) \<and> s = bs @ r)"
  by (simp add: read_frame_iff write_frame_iff)

end
