(* ===== verification/Transfer_Manifest.thy ===== *)
theory Transfer_Manifest
  imports Store_Path
begin

text \<open>
  The messages of the allocation transfer protocol and their validation (\<^verbatim>\<open>telchar/src/nomad/protocol.rs\<close>):
  the input manifest with its build specification, path sets and NAR metadata. Rust strings are held
  as their UTF-8 bytes; sets are the lists they were filled from.
\<close>

section \<open>Messages\<close>

record named_output =
  named_name :: bytes
  named_path :: bytes
  named_hash_algorithm :: bytes
  named_hash :: bytes

record build_specification =
  spec_derivation_path :: bytes
  spec_outputs :: "named_output list"
  spec_input_sources :: "bytes list"
  spec_system :: bytes
  spec_required_system_features :: "bytes list"
  spec_builder :: bytes
  spec_arguments :: "bytes list"
  spec_environment :: "(bytes \<times> bytes) list"

record path_manifest_entry =
  entry_path :: bytes
  entry_nar_hash :: bytes
  entry_nar_size :: u64
  entry_references :: "bytes list"
  entry_deriver :: "bytes option"
  entry_content_address :: "bytes option"

record input_manifest =
  manifest_derivation_path :: bytes
  manifest_build :: build_specification
  manifest_paths :: "path_manifest_entry list"
  manifest_outputs :: "bytes list"

record path_set =
  set_paths :: "bytes list"

record nar_metadata =
  meta_path :: bytes
  meta_nar_hash :: bytes
  meta_nar_size :: u64
  meta_offset :: u64
  meta_final_chunk :: bool

section \<open>Validation\<close>

definition invalid_transfer_path :: io_error where
  "invalid_transfer_path = invalid_data ''Nomad transfer store path is invalid''"

text \<open>
  Both \<^verbatim>\<open>str::get\<close> calls end at character boundaries: byte 32 of the base name is known to be the
  ASCII dash.
\<close>

definition validate_transfer_path :: "bytes \<Rightarrow> bool \<Rightarrow> io_error + unit" where
  "validate_transfer_path path deriver =
     (case strip_prefix (ascii ''/nix/store/'') path of
        None \<Rightarrow> Inl invalid_transfer_path
      | Some base \<Rightarrow>
          if 211 < length base \<or> path_get base 32 \<noteq> Some dash \<or> slash \<in> set base
          then Inl invalid_transfer_path
          else
            let hash = take 32 base; name = drop 33 base in
            if \<not> list_all (\<lambda>b. b \<in> set (ascii ''0123456789abcdfghijklmnpqrsvwxyz'')) hash \<or> name = [] \<or>
               \<not> list_all (\<lambda>b. is_ascii_alphanumeric b \<or> b \<in> set (ascii ''+-._?='')) name \<or>
               ends_with name (ascii ''.drv'') \<noteq> deriver
            then Inl invalid_transfer_path else Inr ())"

definition validate_store_path_bytes :: "bytes \<Rightarrow> bool \<Rightarrow> io_error + unit" where
  "validate_store_path_bytes path derivation =
     (if utf8_valid path then validate_transfer_path path derivation else Inl invalid_transfer_path)"

definition is_derivation_path :: "bytes \<Rightarrow> bool" where
  "is_derivation_path path \<longleftrightarrow> ends_with path (ascii ''.drv'')"

definition validate_nar_hash :: "bytes \<Rightarrow> io_error + unit" where
  "validate_nar_hash hash =
     (if length hash \<noteq> 64 \<or> \<not> list_all is_ascii_hexdigit hash
      then Inl (invalid_data ''Nomad transfer NAR hash is invalid'') else Inr ())"

definition validate_output_authority :: "bytes \<Rightarrow> bytes \<Rightarrow> io_error + unit" where
  "validate_output_authority hash_algorithm hash =
     (if hash_algorithm = [] \<and> hash = [] then Inr ()
      else
        let algorithm = (case strip_prefix (ascii ''r:'') hash_algorithm of Some a \<Rightarrow> a | None \<Rightarrow> hash_algorithm);
            check = (\<lambda>expected_hex_bytes :: nat.
              if length hash \<noteq> expected_hex_bytes \<or>
                 \<not> list_all (\<lambda>b. is_ascii_hexdigit b \<and> \<not> is_ascii_uppercase b) hash
              then Inl (invalid_data ''Nomad transfer build output hash is invalid'') else Inr ()) in
        if algorithm = ascii ''md5'' then check 32
        else if algorithm = ascii ''sha1'' then check 40
        else if algorithm = ascii ''sha256'' then check 64
        else if algorithm = ascii ''sha512'' then check 128
        else Inl (invalid_data ''Nomad transfer build output hash algorithm is invalid''))"

text \<open>The value of a variable that occurs exactly once.\<close>

definition environment_value :: "(bytes \<times> bytes) list \<Rightarrow> bytes \<Rightarrow> bytes option" where
  "environment_value environment name =
     (case filter (\<lambda>(candidate, _). candidate = name) environment of
        [(_, value)] \<Rightarrow> Some value
      | _ \<Rightarrow> None)"

text \<open>A loop over values that fails on the first invalid or repeated one.\<close>

primrec validate_distinct ::
  "('a \<Rightarrow> io_error + unit) \<Rightarrow> ('a \<Rightarrow> 'k) \<Rightarrow> io_error \<Rightarrow> 'k list \<Rightarrow> 'a list \<Rightarrow> io_error + unit" where
  "validate_distinct check key duplicate known [] = Inr ()"
| "validate_distinct check key duplicate known (x # xs) =
     result_then (check x) (\<lambda>_.
     if key x \<in> set known then Inl duplicate
     else validate_distinct check key duplicate (key x # known) xs)"

definition inconsistent_output :: io_error where
  "inconsistent_output = invalid_data ''Nomad transfer build output is inconsistent''"

primrec validate_spec_outputs ::
  "(bytes \<times> bytes) list \<Rightarrow> bytes list \<Rightarrow> bytes list \<Rightarrow> named_output list \<Rightarrow> io_error + unit" where
  "validate_spec_outputs environment names paths [] = Inr ()"
| "validate_spec_outputs environment names paths (output # outputs) =
     (if named_name output = [] \<or> named_name output \<in> set names \<or> named_path output \<in> set paths
      then Inl (invalid_data ''Nomad transfer build output is invalid'')
      else
        result_then (validate_store_path_bytes (named_path output) False) (\<lambda>_.
        result_then (validate_output_authority (named_hash_algorithm output) (named_hash output)) (\<lambda>_.
        result_then
          (case environment_value environment (named_name output) of
             Some path \<Rightarrow> if path \<noteq> named_path output then Inl inconsistent_output else Inr ()
           | None \<Rightarrow> if named_hash_algorithm output = [] \<or> named_hash output = []
                      then Inl inconsistent_output else Inr ()) (\<lambda>_.
        validate_spec_outputs environment (named_name output # names) (named_path output # paths) outputs))))"

definition validate_build_specification :: "nat \<Rightarrow> build_specification \<Rightarrow> io_error + unit" where
  "validate_build_specification maximum_paths spec =
     result_then (validate_store_path_bytes (spec_derivation_path spec) True) (\<lambda>_.
     if spec_outputs spec = [] \<or> maximum_paths < length (spec_outputs spec) \<or>
        maximum_paths < length (spec_input_sources spec) \<or> spec_system spec = [] \<or> spec_builder spec = [] \<or>
        maximum_paths < length (spec_arguments spec) \<or> maximum_paths < length (spec_environment spec)
     then Inl (invalid_data ''Nomad transfer build specification exceeds limit'')
     else
       result_then (validate_spec_outputs (spec_environment spec) [] [] (spec_outputs spec)) (\<lambda>_.
       result_then (validate_distinct (\<lambda>p. validate_store_path_bytes p (is_derivation_path p)) id
          (invalid_data ''Nomad transfer build input is duplicated'') [] (spec_input_sources spec)) (\<lambda>_.
       if (case environment_value (spec_environment spec) (ascii ''system'') of
             Some system \<Rightarrow> system \<noteq> spec_system spec | None \<Rightarrow> False) \<or>
          (case environment_value (spec_environment spec) (ascii ''builder'') of
             Some builder \<Rightarrow> builder \<noteq> spec_builder spec | None \<Rightarrow> False) \<or>
          list_ex (\<lambda>(name, _). name = []) (spec_environment spec)
       then Inl (invalid_data ''Nomad transfer build specification is inconsistent'')
       else Inr ())))"

definition validate_manifest_entry :: "nat \<Rightarrow> u64 \<Rightarrow> path_manifest_entry \<Rightarrow> io_error + unit" where
  "validate_manifest_entry maximum_references maximum_nar_bytes entry =
     result_then (validate_transfer_path (entry_path entry) (is_derivation_path (entry_path entry))) (\<lambda>_.
     result_then (validate_nar_hash (entry_nar_hash entry)) (\<lambda>_.
     if maximum_nar_bytes < entry_nar_size entry \<or> maximum_references < length (entry_references entry)
     then Inl (invalid_data ''Nomad transfer path metadata exceeds limit'')
     else
       result_then (validate_distinct (\<lambda>p. validate_transfer_path p (is_derivation_path p)) id
         (invalid_data ''Nomad transfer path contains duplicate reference'') [] (entry_references entry)) (\<lambda>_.
       result_then (case entry_deriver entry of Some d \<Rightarrow> validate_transfer_path d True | None \<Rightarrow> Inr ()) (\<lambda>_.
       case entry_content_address entry of
         Some address \<Rightarrow>
           if address = [] \<or> 256 < length address \<or> 0 \<in> set address
           then Inl (invalid_data ''Nomad transfer content address is invalid'') else Inr ()
       | None \<Rightarrow> Inr ()))))"

definition validate_manifest :: "nat \<Rightarrow> u64 \<Rightarrow> input_manifest \<Rightarrow> io_error + unit" where
  "validate_manifest maximum_paths maximum_nar_bytes m =
     result_then (validate_transfer_path (manifest_derivation_path m) True) (\<lambda>_.
     result_then (validate_build_specification maximum_paths (manifest_build m)) (\<lambda>_.
     if spec_derivation_path (manifest_build m) \<noteq> manifest_derivation_path m
     then Inl (invalid_data ''Nomad transfer build derivation does not match manifest'')
     else if manifest_paths m = [] \<or> maximum_paths < length (manifest_paths m) \<or>
             manifest_outputs m = [] \<or> maximum_paths < length (manifest_outputs m)
     then Inl (invalid_data ''Nomad transfer manifest path count is invalid'')
     else
       let admitted = map entry_path (manifest_paths m) in
       result_then (validate_distinct (validate_manifest_entry maximum_paths maximum_nar_bytes) entry_path
         (invalid_data ''Nomad transfer manifest contains duplicate path'') [] (manifest_paths m)) (\<lambda>_.
       if list_ex (\<lambda>entry. list_ex (\<lambda>r. r \<notin> set admitted) (entry_references entry)) (manifest_paths m)
       then Inl (invalid_data ''Nomad transfer manifest reference is not admitted'')
       else
         result_then (validate_distinct (\<lambda>p. validate_transfer_path p False) id
           (invalid_data ''Nomad transfer manifest contains duplicate output'') [] (manifest_outputs m)) (\<lambda>_.
         if set (manifest_outputs m) \<noteq> set (map named_path (spec_outputs (manifest_build m)))
         then Inl (invalid_data ''Nomad transfer build outputs do not match manifest'')
         else if list_ex (\<lambda>input. input \<notin> set admitted) (spec_input_sources (manifest_build m))
         then Inl (invalid_data ''Nomad transfer build input source is not admitted'')
         else Inr ()))))"

definition validate_path_set :: "bytes list \<Rightarrow> nat \<Rightarrow> path_set \<Rightarrow> io_error + unit" where
  "validate_path_set admitted maximum_paths ps =
     (if maximum_paths < length (set_paths ps) then Inl (invalid_data ''Nomad transfer path set exceeds limit'')
      else
        validate_distinct
          (\<lambda>p. result_then (validate_transfer_path p (is_derivation_path p)) (\<lambda>_.
             if p \<notin> set admitted then Inl (invalid_data ''Nomad transfer path is not admitted'') else Inr ()))
          id (invalid_data ''Nomad transfer path is not admitted'') [] (set_paths ps))"

definition validate_nar_metadata :: "bytes list \<Rightarrow> u64 \<Rightarrow> nar_metadata \<Rightarrow> io_error + unit" where
  "validate_nar_metadata admitted maximum_nar_bytes meta =
     result_then (validate_transfer_path (meta_path meta) (is_derivation_path (meta_path meta))) (\<lambda>_.
     result_then (validate_nar_hash (meta_nar_hash meta)) (\<lambda>_.
     if maximum_nar_bytes < meta_nar_size meta \<or> meta_path meta \<notin> set admitted
     then Inl (invalid_data ''Nomad transfer NAR metadata is not admitted'') else Inr ()))"

section \<open>Lemmas\<close>

lemma validate_distinct_iff:
  "validate_distinct check key e known xs = Inr () \<longleftrightarrow>
     (\<forall>x\<in>set xs. check x = Inr ()) \<and> distinct (map key xs) \<and> set (map key xs) \<inter> set known = {}"
  by (induction xs arbitrary: known) auto

text \<open>The hash part of a store path holds no dot and the dash is no dot, so the suffix is in the name.\<close>

lemma suffix_in_name:
  assumes "dot \<notin> set h" and "dot \<noteq> d"
  shows "suffix (dot # t) (h @ d # name) \<longleftrightarrow> suffix (dot # t) name"
proof
  assume "suffix (dot # t) (h @ d # name)"
  then obtain zs where zs: "h @ d # name = zs @ dot # t" by (auto simp: suffix_def)
  then obtain us where "h = zs @ us \<and> us @ d # name = dot # t \<or> h @ us = zs \<and> d # name = us @ dot # t"
    by (auto simp: append_eq_append_conv2)
  then show "suffix (dot # t) name" using assms by (cases us) (auto simp: suffix_def)
qed (auto simp: suffix_def)

lemma validate_transfer_path_iff:
  "validate_transfer_path path deriver = Inr () \<longleftrightarrow> is_store_path path \<and> (is_derivation_path path \<longleftrightarrow> deriver)"
proof -
  have dir: "ascii ''/nix/store/'' = nix_store @ [slash]" by (simp add: ascii_def)
  have strip: "strip_prefix (ascii ''/nix/store/'') path = Some base \<longleftrightarrow> path = nix_store @ slash # base" for base
    unfolding dir by (auto simp: strip_prefix_def prefix_def)
  have strip_self: "strip_prefix (ascii ''/nix/store/'') (nix_store @ slash # base) = Some base" for base
    unfolding dir by (simp add: strip_prefix_def prefix_def)
  have base: "validate_transfer_path (nix_store @ slash # base) deriver = Inr () \<longleftrightarrow>
      length base \<le> 211 \<and> (\<exists>hash name. base = hash @ dash # name \<and> length hash = NIX_STORE_HASH_LENGTH \<and>
        set hash \<subseteq> set NIX_STORE_HASH_ALPHABET \<and> name \<noteq> [] \<and> list_all store_name_byte name \<and>
        (ends_with name (ascii ''.drv'') \<longleftrightarrow> deriver))" (is "?L \<longleftrightarrow> _ \<and> ?R") for base
  proof -
    have "?L \<longleftrightarrow> length base \<le> 211 \<and> slash \<notin> set base \<and> 33 < length base \<and> base ! 32 = dash \<and>
        set (take 32 base) \<subseteq> set NIX_STORE_HASH_ALPHABET \<and> list_all store_name_byte (drop 33 base) \<and>
        (ends_with (drop 33 base) (ascii ''.drv'') \<longleftrightarrow> deriver)"
      using strip_self [of base]
      by (auto simp: validate_transfer_path_def Let_def path_get_def list_all_iff NIX_STORE_HASH_ALPHABET_def
          store_name_byte_def)
    also have "\<dots> \<longleftrightarrow> length base \<le> 211 \<and> ?R"
    proof (intro conj_cong refl iffI, goal_cases)
      case 1
      then have "base = take 32 base @ dash # drop 33 base"
        using id_take_nth_drop [of 32 base] by simp
      then show ?case using 1
        by (intro exI [of _ "take 32 base"] exI [of _ "drop 33 base"]) (simp add: NIX_STORE_HASH_LENGTH_def)
    next
      case 2
      then obtain hash name where b: "base = hash @ dash # name" "length hash = 32" "name \<noteq> []"
        "set hash \<subseteq> set NIX_STORE_HASH_ALPHABET" "list_all store_name_byte name"
        "ends_with name (ascii ''.drv'') \<longleftrightarrow> deriver" by (auto simp: NIX_STORE_HASH_LENGTH_def)
      then have "slash \<notin> set base" using slash_in_names by (auto simp: list_all_iff)
      then show ?case using b by (simp add: nth_append)
    qed
    finally show ?thesis .
  qed
  have suffix: "ends_with name (ascii ''.drv'') \<longleftrightarrow> is_derivation_path (nix_store @ slash # hash @ dash # name)"
    if "set hash \<subseteq> set NIX_STORE_HASH_ALPHABET" for hash name
  proof -
    have "(46 :: byte) \<notin> set NIX_STORE_HASH_ALPHABET" "(46 :: byte) \<notin> set (nix_store @ [slash])" by code_simp+
    then have "(46 :: byte) \<notin> set ((nix_store @ [slash]) @ hash)" using that by auto
    from suffix_in_name [OF this, of dash "ascii ''drv''" name] show ?thesis
      by (simp add: ends_with_def is_derivation_path_def ascii_def)
  qed
  show ?thesis
  proof (cases "strip_prefix (ascii ''/nix/store/'') path")
    case None
    then have "\<not> is_store_path path" using strip by (auto simp: store_path_shape_def)
    then show ?thesis using None by (simp add: validate_transfer_path_def)
  next
    case (Some b)
    then have p: "path = nix_store @ slash # b" by (simp add: strip)
    show ?thesis
      unfolding p base store_path_shape_def
      by (simp add: MAXIMUM_WORKER_STORE_PATH_BYTES_def NIX_STORE_DIRECTORY_def) (use suffix in fastforce)
  qed
qed

interpretation transfer_path: store_path_validator "\<lambda>path. validate_transfer_path path (is_derivation_path path)"
  by unfold_locales (simp add: validate_transfer_path_iff)

lemma validate_store_path_bytes_iff:
  "validate_store_path_bytes path derivation = Inr () \<longleftrightarrow> is_store_path path \<and> (is_derivation_path path \<longleftrightarrow> derivation)"
  using transfer_path.accepted_utf8 [of path]
  by (auto simp: validate_store_path_bytes_def validate_transfer_path_iff)

lemma validate_manifest_iff:
  "validate_manifest k n m = Inr () \<longleftrightarrow>
     validate_transfer_path (manifest_derivation_path m) True = Inr () \<and>
     validate_build_specification k (manifest_build m) = Inr () \<and>
     spec_derivation_path (manifest_build m) = manifest_derivation_path m \<and>
     manifest_paths m \<noteq> [] \<and> length (manifest_paths m) \<le> k \<and>
     manifest_outputs m \<noteq> [] \<and> length (manifest_outputs m) \<le> k \<and>
     (\<forall>e\<in>set (manifest_paths m). validate_manifest_entry k n e = Inr ()) \<and>
     distinct (map entry_path (manifest_paths m)) \<and>
     (\<forall>e\<in>set (manifest_paths m). set (entry_references e) \<subseteq> set (map entry_path (manifest_paths m))) \<and>
     (\<forall>p\<in>set (manifest_outputs m). validate_transfer_path p False = Inr ()) \<and> distinct (manifest_outputs m) \<and>
     set (manifest_outputs m) = set (map named_path (spec_outputs (manifest_build m))) \<and>
     set (spec_input_sources (manifest_build m)) \<subseteq> set (map entry_path (manifest_paths m))"
  unfolding validate_manifest_def Let_def result_then_Inr
  by (auto simp: validate_distinct_iff list_ex_iff not_less subset_iff)


section \<open>Properties\<close>

text \<open>
  C36: The path and output-hash checks of the transfer protocol agree with those of the worker protocol:
  a path that passed one passes the other.
\<close>

theorem transfer_checks_agree:
  "(validate_transfer_path path (is_derivation_path path) = Inr () \<longleftrightarrow> validate_store_path path = Inr ()) \<and>
   (validate_output_authority algorithm hash = Inr () \<longleftrightarrow> validate_build_output_hash algorithm hash = Inr ())"
  by (simp add: validate_transfer_path_iff validate_store_path_iff validate_output_authority_def
      validate_build_output_hash_def Let_def)

text \<open>
  C15: A manifest that passes validation is closed: its paths are distinct store paths, every reference
  and every build input is one of them, and its outputs are exactly the outputs of the build, distinct
  and no derivations.
\<close>

theorem valid_manifest_closed:
  assumes "validate_manifest maximum_paths maximum_nar_bytes m = Inr ()"
  shows "distinct (map entry_path (manifest_paths m)) \<and>
    (\<forall>e\<in>set (manifest_paths m). is_store_path (entry_path e) \<and> entry_nar_size e \<le> maximum_nar_bytes \<and>
       set (entry_references e) \<subseteq> set (map entry_path (manifest_paths m))) \<and>
    set (spec_input_sources (manifest_build m)) \<subseteq> set (map entry_path (manifest_paths m)) \<and>
    distinct (manifest_outputs m) \<and>
    set (manifest_outputs m) = set (map named_path (spec_outputs (manifest_build m))) \<and>
    (\<forall>p\<in>set (manifest_outputs m). is_store_path p \<and> \<not> is_derivation_path p)"
proof -
  have "is_store_path (entry_path e) \<and> entry_nar_size e \<le> maximum_nar_bytes"
    if "validate_manifest_entry maximum_paths maximum_nar_bytes e = Inr ()" for e
    using that unfolding validate_manifest_entry_def result_then_Inr
    by (auto simp: validate_transfer_path_iff not_less split: if_splits)
  then show ?thesis
    using assms unfolding validate_manifest_iff by (auto simp: validate_transfer_path_iff)
qed

definition example_transfer_manifest :: input_manifest where
  "example_transfer_manifest =
     (let h = replicate 32 48;
          drv = ascii ''/nix/store/'' @ h @ ascii ''-a.drv'';
          src = ascii ''/nix/store/'' @ h @ ascii ''-s'';
          out = ascii ''/nix/store/'' @ h @ ascii ''-a'' in
      \<lparr>manifest_derivation_path = drv,
       manifest_build = \<lparr>spec_derivation_path = drv,
         spec_outputs = [\<lparr>named_name = ascii ''o'', named_path = out, named_hash_algorithm = [], named_hash = []\<rparr>],
         spec_input_sources = [src], spec_system = ascii ''x'', spec_required_system_features = [],
         spec_builder = ascii ''/bin/sh'', spec_arguments = [], spec_environment = [(ascii ''o'', out)]\<rparr>,
       manifest_paths = [\<lparr>entry_path = src, entry_nar_hash = replicate 64 48, entry_nar_size = 5,
         entry_references = [src], entry_deriver = None, entry_content_address = None\<rparr>],
       manifest_outputs = [out]\<rparr>)"

lemma example_transfer_manifest_valid: "validate_manifest 4 100 example_transfer_manifest = Inr ()"
  by code_simp

theorem valid_manifest_closed_witness:
  "validate_manifest 4 100 example_transfer_manifest = Inr () \<and>
   distinct (map entry_path (manifest_paths example_transfer_manifest)) \<and>
   list_all (\<lambda>e. set (entry_references e) \<subseteq> set (map entry_path (manifest_paths example_transfer_manifest)))
     (manifest_paths example_transfer_manifest)"
  using valid_manifest_closed [OF example_transfer_manifest_valid] example_transfer_manifest_valid
  unfolding list_all_iff by blast

end
