(* ===== verification/Transfer_Session.thy ===== *)
theory Transfer_Session
  imports Transfer_Frame Transfer_Manifest
begin

text \<open>
  The transfer session of an allocation (\<^verbatim>\<open>telchar/src/nomad/protocol.rs\<close>): which input paths are
  available, requested or received, which outputs are declared, received or accepted, and the frame
  handler \<^verbatim>\<open>TransferSession::accept\<close>. The maps of the code, whose keys never change after construction,
  are association lists. The JSON decoder of the metadata is a parameter. Every caller drops the session
  on an error, so an operation returns the new session or the error.
\<close>

section \<open>Maps with fixed keys\<close>

definition set_entry :: "'k \<Rightarrow> 'v \<Rightarrow> ('k \<times> 'v) list \<Rightarrow> ('k \<times> 'v) list" where
  "set_entry k v xs = map (\<lambda>(k', v'). (k', if k' = k then v else v')) xs"

definition checked_add_u64 :: "u64 \<Rightarrow> u64 \<Rightarrow> u64 option" where
  "checked_add_u64 a b = (if unat a + unat b < usize_limit then Some (a + b) else None)"

section \<open>Inputs\<close>

datatype input_state = AwaitingResolution | Available | Requested u64 | Received

record input_session =
  in_manifest :: input_manifest
  in_states :: "(bytes \<times> (nat \<times> input_state)) list"
  in_maximum_paths :: nat
  in_maximum_nar_bytes :: u64
  in_maximum_total_bytes :: u64
  in_resolution_recorded :: bool
  in_request_created :: bool

definition new_input_session :: "input_manifest \<Rightarrow> nat \<Rightarrow> u64 \<Rightarrow> u64 \<Rightarrow> io_error + input_session" where
  "new_input_session manifest maximum_paths maximum_nar_bytes maximum_total_bytes =
     (if maximum_paths = 0 \<or> maximum_nar_bytes = 0 \<or> maximum_total_bytes = 0
      then Inl (invalid_data ''Nomad input transfer configuration is invalid'')
      else
        result_then (validate_manifest maximum_paths maximum_nar_bytes manifest) (\<lambda>_.
        Inr \<lparr>in_manifest = manifest,
             in_states = map (\<lambda>(index, entry). (entry_path entry, (index, AwaitingResolution)))
                             (enumerate 0 (manifest_paths manifest)),
             in_maximum_paths = maximum_paths, in_maximum_nar_bytes = maximum_nar_bytes,
             in_maximum_total_bytes = maximum_total_bytes,
             in_resolution_recorded = False, in_request_created = False\<rparr>))"

definition input_not_admitted :: io_error where
  "input_not_admitted = invalid_data ''Nomad input path is not admitted''"

primrec set_input_states ::
  "input_state \<Rightarrow> bytes list \<Rightarrow> (bytes \<times> (nat \<times> input_state)) list \<Rightarrow> io_error + (bytes \<times> (nat \<times> input_state)) list" where
  "set_input_states st [] states = Inr states"
| "set_input_states st (p # ps) states =
     (case map_of states p of
        None \<Rightarrow> Inl input_not_admitted
      | Some (index, _) \<Rightarrow> set_input_states st ps (set_entry p (index, st) states))"

definition record_valid_paths :: "path_set \<Rightarrow> input_session \<Rightarrow> io_error + input_session" where
  "record_valid_paths paths s =
     (if in_resolution_recorded s \<or> in_request_created s
      then Inl (invalid_data ''Nomad input resolution is duplicated'')
      else
        result_then (validate_path_set (map fst (in_states s)) (in_maximum_paths s) paths) (\<lambda>_.
        result_then (set_input_states Available (set_paths paths) (in_states s)) (\<lambda>states.
        Inr (s\<lparr>in_states := states, in_resolution_recorded := True\<rparr>))))"

primrec total_within :: "u64 \<Rightarrow> u64 \<Rightarrow> path_manifest_entry list \<Rightarrow> io_error + u64" where
  "total_within limit accumulated [] = Inr accumulated"
| "total_within limit accumulated (e # es) =
     (case checked_add_u64 accumulated (entry_nar_size e) of
        Some v \<Rightarrow> if v \<le> limit then total_within limit v es
                  else Inl (invalid_data ''Nomad input transfer exceeds total byte limit'')
      | None \<Rightarrow> Inl (invalid_data ''Nomad input transfer exceeds total byte limit''))"

definition unresolved_entries :: "input_session \<Rightarrow> path_manifest_entry list" where
  "unresolved_entries s =
     filter (\<lambda>e. case map_of (in_states s) (entry_path e) of
        Some (_, st) \<Rightarrow> st = AwaitingResolution | None \<Rightarrow> False) (manifest_paths (in_manifest s))"

definition request_unresolved :: "input_session \<Rightarrow> io_error + (path_set \<times> input_session)" where
  "request_unresolved s =
     (if \<not> in_resolution_recorded s \<or> in_request_created s
      then Inl (invalid_data ''Nomad input request is out of order'')
      else
        let unresolved = unresolved_entries s; paths = map entry_path unresolved in
        result_then (total_within (in_maximum_total_bytes s) 0 unresolved) (\<lambda>_.
        result_then (set_input_states (Requested 0) paths (in_states s)) (\<lambda>states.
        Inr (\<lparr>set_paths = paths\<rparr>, s\<lparr>in_states := states, in_request_created := True\<rparr>))))"

definition input_nar_mismatch :: io_error where
  "input_nar_mismatch = invalid_data ''Nomad input NAR does not match manifest''"

definition receive_input_chunk :: "nar_metadata \<Rightarrow> u64 \<Rightarrow> input_session \<Rightarrow> io_error + input_session" where
  "receive_input_chunk meta received_bytes s =
     (if \<not> in_request_created s then Inl (invalid_data ''Nomad input NAR is out of order'')
      else case map_of (in_states s) (meta_path meta) of
        None \<Rightarrow> Inl input_not_admitted
      | Some (index, st) \<Rightarrow>
          let entry = manifest_paths (in_manifest s) ! index in
          result_then (validate_nar_metadata [entry_path entry] (in_maximum_nar_bytes s) meta) (\<lambda>_.
          case st of
            Requested prior_bytes \<Rightarrow>
              (case checked_add_u64 prior_bytes received_bytes of
                 None \<Rightarrow> Inl (invalid_data ''Nomad input NAR length is invalid'')
               | Some total_bytes \<Rightarrow>
                   if meta_nar_hash meta \<noteq> entry_nar_hash entry \<or> meta_nar_size meta \<noteq> entry_nar_size entry \<or>
                      meta_offset meta \<noteq> prior_bytes \<or> received_bytes = 0 \<or>
                      entry_nar_size entry < total_bytes \<or>
                      meta_final_chunk meta \<noteq> (total_bytes = entry_nar_size entry)
                   then Inl input_nar_mismatch
                   else Inr (s\<lparr>in_states := set_entry (meta_path meta)
                          (index, if meta_final_chunk meta then Received else Requested total_bytes) (in_states s)\<rparr>))
          | _ \<Rightarrow> Inl input_nar_mismatch))"

definition input_settled :: "input_state \<Rightarrow> bool" where
  "input_settled st \<longleftrightarrow> st = Available \<or> st = Received"

definition ready_to_build :: "input_session \<Rightarrow> io_error + unit" where
  "ready_to_build s =
     (if \<not> in_resolution_recorded s \<or> \<not> in_request_created s \<or>
         \<not> list_all (\<lambda>(_, (_, st)). input_settled st) (in_states s)
      then Inl (invalid_data ''Nomad inputs are unresolved'') else Inr ())"

section \<open>Outputs\<close>

datatype output_state = Expected | Declared u64 u64 | OutputReceived | Accepted

datatype build_outcome = Built | Failed

record build_result_metadata =
  result_outcome :: build_outcome
  result_diagnostic :: "bytes option"

record output_receipt =
  receipt_path :: bytes
  receipt_accepted :: bool

record output_session =
  out_states :: "(bytes \<times> output_state) list"
  out_maximum_references :: nat
  out_maximum_nar_bytes :: u64
  out_maximum_total_bytes :: u64
  out_maximum_diagnostic_bytes :: nat
  out_declared_total_bytes :: u64
  out_complete :: bool

primrec expect_outputs :: "(bytes \<times> output_state) list \<Rightarrow> bytes list \<Rightarrow> io_error + (bytes \<times> output_state) list" where
  "expect_outputs states [] = Inr states"
| "expect_outputs states (output # outputs) =
     result_then (validate_transfer_path output False) (\<lambda>_.
     if map_of states output \<noteq> None
     then Inl (invalid_data ''Nomad output transfer contains duplicate output'')
     else expect_outputs (states @ [(output, Expected)]) outputs)"

definition new_output_session :: "bytes list \<Rightarrow> nat \<Rightarrow> u64 \<Rightarrow> u64 \<Rightarrow> nat \<Rightarrow> io_error + output_session" where
  "new_output_session expected maximum_references maximum_nar_bytes maximum_total_bytes maximum_diagnostic_bytes =
     (if expected = [] \<or> maximum_references = 0 \<or> maximum_nar_bytes = 0 \<or> maximum_total_bytes = 0 \<or>
         maximum_diagnostic_bytes = 0
      then Inl (invalid_data ''Nomad output transfer configuration is invalid'')
      else
        result_then (expect_outputs [] expected) (\<lambda>states.
        Inr \<lparr>out_states = states, out_maximum_references = maximum_references,
             out_maximum_nar_bytes = maximum_nar_bytes, out_maximum_total_bytes = maximum_total_bytes,
             out_maximum_diagnostic_bytes = maximum_diagnostic_bytes,
             out_declared_total_bytes = 0, out_complete = False\<rparr>))"

definition output_complete_error :: io_error where
  "output_complete_error = invalid_data ''Nomad output transfer is complete''"

definition output_not_expected :: io_error where
  "output_not_expected = invalid_data ''Nomad output is not expected''"

definition declare_output :: "path_manifest_entry \<Rightarrow> output_session \<Rightarrow> io_error + output_session" where
  "declare_output meta s =
     (if out_complete s then Inl output_complete_error
      else
        result_then (validate_manifest_entry (out_maximum_references s) (out_maximum_nar_bytes s) meta) (\<lambda>_.
        case map_of (out_states s) (entry_path meta) of
          None \<Rightarrow> Inl output_not_expected
        | Some st \<Rightarrow>
            if st \<noteq> Expected then Inl (invalid_data ''Nomad output metadata is duplicated'')
            else
              (case checked_add_u64 (out_declared_total_bytes s) (entry_nar_size meta) of
                 Some declared_total \<Rightarrow>
                   if declared_total \<le> out_maximum_total_bytes s
                   then Inr (s\<lparr>out_states := set_entry (entry_path meta) (Declared (entry_nar_size meta) 0) (out_states s),
                               out_declared_total_bytes := declared_total\<rparr>)
                   else Inl (invalid_data ''Nomad output transfer exceeds total byte limit'')
               | None \<Rightarrow> Inl (invalid_data ''Nomad output transfer exceeds total byte limit''))))"

definition output_nar_mismatch :: io_error where
  "output_nar_mismatch = invalid_data ''Nomad output NAR does not match declaration''"

definition receive_output_chunk ::
  "bytes \<Rightarrow> u64 \<Rightarrow> u64 \<Rightarrow> bool \<Rightarrow> output_session \<Rightarrow> io_error + output_session" where
  "receive_output_chunk path offset received_bytes final_chunk s =
     (if out_complete s then Inl output_complete_error
      else case map_of (out_states s) path of
        None \<Rightarrow> Inl output_not_expected
      | Some (Declared nar_size prior_bytes) \<Rightarrow>
          (case checked_add_u64 prior_bytes received_bytes of
             None \<Rightarrow> Inl (invalid_data ''Nomad output NAR length is invalid'')
           | Some total_bytes \<Rightarrow>
               if offset \<noteq> prior_bytes \<or> received_bytes = 0 \<or> nar_size < total_bytes \<or>
                  final_chunk \<noteq> (total_bytes = nar_size)
               then Inl output_nar_mismatch
               else Inr (s\<lparr>out_states := set_entry path
                      (if final_chunk then OutputReceived else Declared nar_size total_bytes) (out_states s)\<rparr>))
      | Some _ \<Rightarrow> Inl output_nar_mismatch)"

definition record_receipt :: "output_receipt \<Rightarrow> output_session \<Rightarrow> io_error + output_session" where
  "record_receipt receipt s =
     (if out_complete s \<or> \<not> receipt_accepted receipt then Inl (invalid_data ''Nomad output receipt is invalid'')
      else case map_of (out_states s) (receipt_path receipt) of
        None \<Rightarrow> Inl output_not_expected
      | Some st \<Rightarrow>
          if st \<noteq> OutputReceived then Inl (invalid_data ''Nomad output receipt is out of order'')
          else Inr (s\<lparr>out_states := set_entry (receipt_path receipt) Accepted (out_states s)\<rparr>))"

definition finish_outputs :: "build_result_metadata \<Rightarrow> output_session \<Rightarrow> io_error + output_session" where
  "finish_outputs result s =
     (if out_complete s then Inl output_complete_error
      else if (case result_diagnostic result of Some d \<Rightarrow> out_maximum_diagnostic_bytes s < length d | None \<Rightarrow> False)
      then Inl (invalid_data ''Nomad build diagnostic exceeds limit'')
      else
        (case result_outcome result of
           Built \<Rightarrow>
             if result_diagnostic result = None \<and> list_all (\<lambda>(_, st). st = Accepted) (out_states s)
             then Inr (s\<lparr>out_complete := True\<rparr>)
             else Inl (invalid_data ''Nomad terminal build result is invalid'')
         | Failed \<Rightarrow> Inr (s\<lparr>out_complete := True\<rparr>)))"

section \<open>The session\<close>

record metadata_codec =
  decode_path_set :: "bytes \<Rightarrow> path_set option"
  decode_nar_metadata :: "bytes \<Rightarrow> nar_metadata option"
  decode_build_started :: "bytes \<Rightarrow> bytes option"
  decode_log_chunk :: "bytes \<Rightarrow> u64 option"
  decode_output_metadata :: "bytes \<Rightarrow> path_manifest_entry option"
  decode_output_receipt :: "bytes \<Rightarrow> output_receipt option"
  decode_build_result :: "bytes \<Rightarrow> build_result_metadata option"

definition decode_metadata :: "(bytes \<Rightarrow> 'a option) \<Rightarrow> bytes \<Rightarrow> nat \<Rightarrow> io_error + 'a" where
  "decode_metadata decode encoded maximum_bytes =
     (if maximum_bytes < length encoded then Inl (invalid_data ''Nomad transfer frame metadata exceeds limit'')
      else case decode encoded of
        Some v \<Rightarrow> Inr v
      | None \<Rightarrow> Inl (invalid_data ''Nomad transfer frame metadata is invalid''))"

record transfer_session =
  ts_protocol :: phase
  ts_inputs :: input_session
  ts_outputs :: output_session
  ts_derivation_path :: bytes
  ts_maximum_log_chunk_bytes :: nat
  ts_maximum_metadata_bytes :: nat
  ts_next_log_sequence :: u64

definition new_transfer_session ::
  "input_manifest \<Rightarrow> nat \<Rightarrow> u64 \<Rightarrow> u64 \<Rightarrow> u64 \<Rightarrow> u64 \<Rightarrow> nat \<Rightarrow> nat \<Rightarrow> io_error + transfer_session" where
  "new_transfer_session manifest maximum_paths maximum_input_nar_bytes maximum_total_input_bytes
     maximum_output_nar_bytes maximum_total_output_bytes log_chunk_limit metadata_limit =
     (if log_chunk_limit = 0 \<or> metadata_limit = 0
      then Inl (invalid_data ''Nomad transfer session configuration is invalid'')
      else
        result_then (new_output_session (manifest_outputs manifest) maximum_paths maximum_output_nar_bytes
          maximum_total_output_bytes metadata_limit) (\<lambda>outputs.
        result_then (new_input_session manifest maximum_paths maximum_input_nar_bytes
          maximum_total_input_bytes) (\<lambda>inputs.
        Inr \<lparr>ts_protocol = resolving_inputs, ts_inputs = inputs, ts_outputs = outputs,
             ts_derivation_path = manifest_derivation_path manifest,
             ts_maximum_log_chunk_bytes = log_chunk_limit,
             ts_maximum_metadata_bytes = metadata_limit, ts_next_log_sequence = 0\<rparr>)))"

definition require_empty_payload :: "frame \<Rightarrow> io_error + unit" where
  "require_empty_payload f =
     (if frame_payload f \<noteq> [] then Inl (invalid_data ''Nomad transfer frame payload is invalid'') else Inr ())"

definition accept_input_request :: "metadata_codec \<Rightarrow> frame \<Rightarrow> transfer_session \<Rightarrow> io_error + transfer_session" where
  "accept_input_request codec f s =
     result_then (require_empty_payload f) (\<lambda>_.
     result_then (decode_metadata (decode_path_set codec) (frame_metadata f) (ts_maximum_metadata_bytes s)) (\<lambda>requested.
     result_then (request_unresolved (ts_inputs s)) (\<lambda>(expected, inputs).
     if \<not> distinct (set_paths requested) \<or> set (set_paths requested) \<noteq> set (set_paths expected)
     then Inl (invalid_data ''Nomad input request does not match unresolved paths'')
     else Inr (s\<lparr>ts_inputs := inputs\<rparr>))))"

definition accept_log_chunk :: "metadata_codec \<Rightarrow> frame \<Rightarrow> transfer_session \<Rightarrow> io_error + transfer_session" where
  "accept_log_chunk codec f s =
     result_then (decode_metadata (decode_log_chunk codec) (frame_metadata f) (ts_maximum_metadata_bytes s)) (\<lambda>sequence.
     if sequence \<noteq> ts_next_log_sequence s \<or> ts_maximum_log_chunk_bytes s < length (frame_payload f)
     then Inl (invalid_data ''Nomad live log chunk is invalid'')
     else case checked_add_u64 (ts_next_log_sequence s) 1 of
         Some n \<Rightarrow> Inr (s\<lparr>ts_next_log_sequence := n\<rparr>)
       | None \<Rightarrow> Inl (invalid_data ''Nomad live log sequence is invalid''))"

definition handle_frame :: "metadata_codec \<Rightarrow> frame \<Rightarrow> transfer_session \<Rightarrow> io_error + transfer_session" where
  "handle_frame codec f s =
     (case frame_kind f of
        ValidPaths \<Rightarrow>
          result_then (require_empty_payload f) (\<lambda>_.
          result_then (decode_metadata (decode_path_set codec) (frame_metadata f) (ts_maximum_metadata_bytes s)) (\<lambda>paths.
          result_then (record_valid_paths paths (ts_inputs s)) (\<lambda>inputs.
          Inr (s\<lparr>ts_inputs := inputs\<rparr>))))
      | InputRequest \<Rightarrow> accept_input_request codec f s
      | InputNar \<Rightarrow>
          result_then (decode_metadata (decode_nar_metadata codec) (frame_metadata f) (ts_maximum_metadata_bytes s)) (\<lambda>meta.
          result_then (receive_input_chunk meta (of_nat (length (frame_payload f))) (ts_inputs s)) (\<lambda>inputs.
          Inr (s\<lparr>ts_inputs := inputs\<rparr>)))
      | BuildStarted \<Rightarrow>
          result_then (require_empty_payload f) (\<lambda>_.
          result_then (decode_metadata (decode_build_started codec) (frame_metadata f) (ts_maximum_metadata_bytes s)) (\<lambda>started.
          if started \<noteq> ts_derivation_path s then Inl (invalid_data ''Nomad build start derivation is invalid'')
          else result_then (ready_to_build (ts_inputs s)) (\<lambda>_. Inr s)))
      | LogChunk \<Rightarrow> accept_log_chunk codec f s
      | OutputMetadata \<Rightarrow>
          result_then (require_empty_payload f) (\<lambda>_.
          result_then (decode_metadata (decode_output_metadata codec) (frame_metadata f) (ts_maximum_metadata_bytes s)) (\<lambda>meta.
          result_then (declare_output meta (ts_outputs s)) (\<lambda>outputs.
          Inr (s\<lparr>ts_outputs := outputs\<rparr>))))
      | OutputNar \<Rightarrow>
          result_then (decode_metadata (decode_nar_metadata codec) (frame_metadata f) (ts_maximum_metadata_bytes s)) (\<lambda>meta.
          result_then (receive_output_chunk (meta_path meta) (meta_offset meta)
            (of_nat (length (frame_payload f))) (meta_final_chunk meta) (ts_outputs s)) (\<lambda>outputs.
          Inr (s\<lparr>ts_outputs := outputs\<rparr>)))
      | OutputReceipt \<Rightarrow>
          result_then (require_empty_payload f) (\<lambda>_.
          result_then (decode_metadata (decode_output_receipt codec) (frame_metadata f) (ts_maximum_metadata_bytes s)) (\<lambda>receipt.
          result_then (record_receipt receipt (ts_outputs s)) (\<lambda>outputs.
          Inr (s\<lparr>ts_outputs := outputs\<rparr>))))
      | BuildResult \<Rightarrow>
          result_then (require_empty_payload f) (\<lambda>_.
          result_then (decode_metadata (decode_build_result codec) (frame_metadata f) (ts_maximum_metadata_bytes s)) (\<lambda>result.
          result_then (finish_outputs result (ts_outputs s)) (\<lambda>outputs.
          Inr (s\<lparr>ts_outputs := outputs\<rparr>))))
      | _ \<Rightarrow> Inl (invalid_data ''Nomad transfer frame is invalid for active session''))"

definition accept_frame :: "metadata_codec \<Rightarrow> direction \<Rightarrow> frame \<Rightarrow> transfer_session \<Rightarrow> io_error + transfer_session" where
  "accept_frame codec direction f s =
     result_then (handle_frame codec f s) (\<lambda>s1.
     result_then (protocol_accept direction (frame_kind f) (ts_protocol s1)) (\<lambda>next_phase.
     Inr (s1\<lparr>ts_protocol := next_phase\<rparr>)))"

definition transfer_complete :: "transfer_session \<Rightarrow> bool" where
  "transfer_complete s \<longleftrightarrow> ts_protocol s = Complete \<and> out_complete (ts_outputs s)"

primrec accept_frames ::
  "metadata_codec \<Rightarrow> (direction \<times> frame) list \<Rightarrow> transfer_session \<Rightarrow> io_error + transfer_session" where
  "accept_frames codec [] s = Inr s"
| "accept_frames codec (df # dfs) s =
     result_then (accept_frame codec (fst df) (snd df) s) (accept_frames codec dfs)"


section \<open>Lemmas on maps and checked addition\<close>

lemma map_fst_set_entry [simp]: "map fst (set_entry k v xs) = map fst xs"
  by (simp add: set_entry_def comp_def split_beta)

lemma map_of_set_entry:
  "map_of (set_entry k v xs) k' = (if k' = k \<and> map_of xs k \<noteq> None then Some v else map_of xs k')"
  by (induction xs) (auto simp: set_entry_def)

lemma checked_add_u64_eq_Some: "checked_add_u64 a b = Some c \<longleftrightarrow> unat c = unat a + unat b"
proof -
  have "unat (a + b) = unat a + unat b" if "unat a + unat b < usize_limit"
    using that unat_of_nat_u64 [of "unat a + unat b"] by simp
  then show ?thesis using unat_u64_less [of c] by (auto simp: checked_add_u64_def word_unat_eq_iff)
qed

lemma set_input_states_ok:
  assumes "set_input_states st ps states = Inr states'"
  shows "map fst states' = map fst states \<and> set ps \<subseteq> set (map fst states) \<and>
    (\<forall>p. map_of states' p = map_option (\<lambda>(i, x). (i, if p \<in> set ps then st else x)) (map_of states p))"
  using assms
proof (induction ps arbitrary: states)
  case Nil
  then show ?case by (auto simp: map_option_case split: option.split)
next
  case (Cons q qs)
  from Cons.prems obtain i x where q: "map_of states q = Some (i, x)"
    and r: "set_input_states st qs (set_entry q (i, st) states) = Inr states'"
    by (auto split: option.splits)
  have "q \<in> set (map fst states)" using q by (metis map_of_SomeD image_eqI fst_conv set_map)
  then show ?case
    using Cons.IH [OF r] q by (auto simp: map_of_set_entry map_option_case split: option.splits if_splits)
qed

lemma total_within_ok:
  assumes "total_within limit acc es = Inr v"
  shows "unat v = unat acc + sum_list (map (unat \<circ> entry_nar_size) es) \<and> (es \<noteq> [] \<longrightarrow> v \<le> limit)"
  using assms
proof (induction es arbitrary: acc)
  case (Cons e es)
  then show ?case
    by (auto simp: checked_add_u64_eq_Some split: option.splits if_splits) (cases es; auto)
qed simp

section \<open>What the inputs have received\<close>

text \<open>
  \<^verbatim>\<open>received p\<close> is the number of payload bytes that arrived for a path and \<^verbatim>\<open>reported\<close> the paths that the
  worker has already.
\<close>

definition requested_entry :: "input_session \<Rightarrow> path_manifest_entry \<Rightarrow> bool" where
  "requested_entry s e \<longleftrightarrow>
     (\<exists>i st. map_of (in_states s) (entry_path e) = Some (i, st) \<and> (st = Received \<or> (\<exists>r. st = Requested r)))"

primrec input_state_ok :: "(bytes \<Rightarrow> nat) \<Rightarrow> bytes set \<Rightarrow> input_session \<Rightarrow> path_manifest_entry \<Rightarrow> input_state \<Rightarrow> bool" where
  "input_state_ok received reported s e AwaitingResolution \<longleftrightarrow> received (entry_path e) = 0 \<and> \<not> in_request_created s"
| "input_state_ok received reported s e Available \<longleftrightarrow>
     received (entry_path e) = 0 \<and> entry_path e \<in> reported \<and> in_resolution_recorded s"
| "input_state_ok received reported s e (Requested r) \<longleftrightarrow>
     received (entry_path e) = unat r \<and> r \<le> entry_nar_size e \<and> in_request_created s"
| "input_state_ok received reported s e Received \<longleftrightarrow>
     received (entry_path e) = unat (entry_nar_size e) \<and> in_request_created s"

definition input_inv :: "(bytes \<Rightarrow> nat) \<Rightarrow> bytes set \<Rightarrow> input_session \<Rightarrow> bool" where
  "input_inv received reported s \<longleftrightarrow>
     map fst (in_states s) = map entry_path (manifest_paths (in_manifest s)) \<and>
     distinct (map entry_path (manifest_paths (in_manifest s))) \<and>
     (\<forall>p i st. map_of (in_states s) p = Some (i, st) \<longrightarrow>
        i < length (manifest_paths (in_manifest s)) \<and> entry_path (manifest_paths (in_manifest s) ! i) = p \<and>
        input_state_ok received reported s (manifest_paths (in_manifest s) ! i) st) \<and>
     (\<forall>p. map_of (in_states s) p = None \<longrightarrow> received p = 0) \<and>
     (in_request_created s \<longrightarrow> in_resolution_recorded s) \<and>
     sum_list (map (unat \<circ> entry_nar_size) (filter (requested_entry s) (manifest_paths (in_manifest s))))
       \<le> unat (in_maximum_total_bytes s)"

lemma map_of_enumerated:
  "distinct (map f xs) \<Longrightarrow> map_of (map (\<lambda>(i, e). (f e, (i, c))) (enumerate n xs)) p = Some (i, st) \<Longrightarrow>
   n \<le> i \<and> i - n < length xs \<and> f (xs ! (i - n)) = p \<and> st = c"
  by (induction xs arbitrary: n) (auto simp: nth_Cons' split: if_splits, force+)

lemma keys_enumerated: "map fst (map (\<lambda>(i, e). (f e, (i, c))) (enumerate n xs)) = map f xs"
  by (induction xs arbitrary: n) auto

lemma new_input_session_inv:
  assumes "new_input_session m k n t = Inr s"
  shows "input_inv (\<lambda>_. 0) {} s"
proof -
  have v: "validate_manifest k n m = Inr ()" and s: "s = \<lparr>in_manifest = m,
      in_states = map (\<lambda>(index, entry). (entry_path entry, (index, AwaitingResolution))) (enumerate 0 (manifest_paths m)),
      in_maximum_paths = k, in_maximum_nar_bytes = n, in_maximum_total_bytes = t,
      in_resolution_recorded = False, in_request_created = False\<rparr>"
    using assms by (auto simp: new_input_session_def split: if_splits)
  have d: "distinct (map entry_path (manifest_paths m))" using v by (simp add: validate_manifest_iff)
  have lk: "i < length (manifest_paths m) \<and> entry_path (manifest_paths m ! i) = p \<and> st = AwaitingResolution"
    if "map_of (in_states s) p = Some (i, st)" for p i st
    using map_of_enumerated [OF d, where n = 0 and c = AwaitingResolution and p = p and i = i and st = st] that by (simp add: s)
  have none: "\<not> requested_entry s e" for e
    by (auto simp: requested_entry_def dest: lk)
  have keys: "map fst (in_states s) = map entry_path (manifest_paths m)"
    by (simp only: s input_session.simps keys_enumerated)
  have flags: "in_manifest s = m" "\<not> in_request_created s" "\<not> in_resolution_recorded s" by (simp_all add: s)
  show ?thesis
    unfolding input_inv_def flags(1) using d keys flags by (simp add: none) (use lk in fastforce)
qed


lemma input_invD:
  assumes "input_inv received reported s" and "map_of (in_states s) p = Some (i, st)"
  shows "i < length (manifest_paths (in_manifest s))" "entry_path (manifest_paths (in_manifest s) ! i) = p"
    "input_state_ok received reported s (manifest_paths (in_manifest s) ! i) st"
  using assms unfolding input_inv_def by blast+

lemma input_invI:
  assumes "map fst (in_states s) = map entry_path (manifest_paths (in_manifest s))"
    and "distinct (map entry_path (manifest_paths (in_manifest s)))"
    and "\<And>p i st. map_of (in_states s) p = Some (i, st) \<Longrightarrow>
      i < length (manifest_paths (in_manifest s)) \<and> entry_path (manifest_paths (in_manifest s) ! i) = p \<and>
      input_state_ok received reported s (manifest_paths (in_manifest s) ! i) st"
    and "\<And>p. map_of (in_states s) p = None \<Longrightarrow> received p = 0"
    and "in_request_created s \<Longrightarrow> in_resolution_recorded s"
    and "sum_list (map (unat \<circ> entry_nar_size) (filter (requested_entry s) (manifest_paths (in_manifest s))))
       \<le> unat (in_maximum_total_bytes s)"
  shows "input_inv received reported s"
  using assms unfolding input_inv_def by blast

lemma not_requested:
  assumes "input_inv received reported s" and "\<not> in_request_created s"
  shows "\<not> requested_entry s e"
  using input_invD(3) [OF assms(1)] assms(2) by (fastforce simp: requested_entry_def)

lemma record_valid_paths_inv:
  assumes inv: "input_inv received reported s" and r: "record_valid_paths ps s = Inr s'"
  shows "input_inv received (reported \<union> set (set_paths ps)) s' \<and> in_maximum_total_bytes s' = in_maximum_total_bytes s \<and>
    in_manifest s' = in_manifest s"
proof -
  from r obtain states where flags: "\<not> in_resolution_recorded s" "\<not> in_request_created s"
    and st: "set_input_states Available (set_paths ps) (in_states s) = Inr states"
    and s': "s' = s\<lparr>in_states := states, in_resolution_recorded := True\<rparr>"
    by (auto simp: record_valid_paths_def split: if_splits)
  note ok = set_input_states_ok [OF st]
  have lk: "\<exists>x. map_of (in_states s) p = Some (i, x) \<and> y = (if p \<in> set (set_paths ps) then Available else x)"
    if "map_of states p = Some (i, y)" for p i y
    using ok that by auto
  have none: "map_of states p = None \<longleftrightarrow> map_of (in_states s) p = None" for p using ok by simp
  have nr: "\<not> requested_entry s' e" for e
  proof
    assume "requested_entry s' e"
    then obtain i y where y: "map_of states (entry_path e) = Some (i, y)" "y = Received \<or> (\<exists>r. y = Requested r)"
      by (auto simp: requested_entry_def s')
    then have "requested_entry s e" using lk [OF y(1)] by (auto simp: requested_entry_def split: if_splits)
    then show False using not_requested [OF inv flags(2)] by blast
  qed
  have step: "input_state_ok received (reported \<union> set (set_paths ps)) s' e y"
    if "input_state_ok received reported s e x" "y = (if entry_path e \<in> set (set_paths ps) then Available else x)" for e x y
    using that flags by (cases x) (auto simp: s')
  have "input_inv received (reported \<union> set (set_paths ps)) s'"
  proof (rule input_invI, goal_cases)
    case (3 p i y)
    then have "map_of states p = Some (i, y)" by (simp add: s')
    from lk [OF this] obtain x where x: "map_of (in_states s) p = Some (i, x)"
      "y = (if p \<in> set (set_paths ps) then Available else x)" by blast
    note e = input_invD [OF inv x(1)]
    show ?case using e step [OF e(3), of y] x(2) by (simp add: s' e(2))
  next
    case (4 p)
    then show ?case using inv none by (simp add: s' input_inv_def)
  qed (use inv ok nr in \<open>auto simp: input_inv_def s'\<close>)
  then show ?thesis by (simp add: s')
qed

lemma unresolved_entries_iff:
  "e \<in> set (unresolved_entries s) \<longleftrightarrow> e \<in> set (manifest_paths (in_manifest s)) \<and>
    (\<exists>i. map_of (in_states s) (entry_path e) = Some (i, AwaitingResolution))"
  by (auto simp: unresolved_entries_def split: option.splits)


lemma request_unresolved_inv:
  assumes inv: "input_inv received reported s" and r: "request_unresolved s = Inr (ps, s')"
  shows "input_inv received reported s' \<and> in_maximum_total_bytes s' = in_maximum_total_bytes s \<and>
    in_manifest s' = in_manifest s"
proof -
  let ?ps = "map entry_path (unresolved_entries s)" and ?ms = "manifest_paths (in_manifest s)"
  from r obtain states v where flags: "in_resolution_recorded s" "\<not> in_request_created s"
    and v: "total_within (in_maximum_total_bytes s) 0 (unresolved_entries s) = Inr v"
    and st: "set_input_states (Requested 0) ?ps (in_states s) = Inr states"
    and s': "s' = s\<lparr>in_states := states, in_request_created := True\<rparr>"
    by (auto simp: request_unresolved_def Let_def split: if_splits)
  note ok = set_input_states_ok [OF st]
  have un: "p \<in> set ?ps \<longleftrightarrow> x = AwaitingResolution" if "map_of (in_states s) p = Some (i, x)" for p i x
  proof -
    have "?ms ! i \<in> set ?ms" "entry_path (?ms ! i) = p" using input_invD [OF inv that] by simp_all
    then show ?thesis using that by (auto simp: unresolved_entries_iff image_iff)
  qed
  have lk: "\<exists>x. map_of (in_states s) p = Some (i, x) \<and> y = (if x = AwaitingResolution then Requested 0 else x)"
    if y: "map_of states p = Some (i, y)" for p i y
  proof -
    obtain x where x: "map_of (in_states s) p = Some (i, x)" "y = (if p \<in> set ?ps then Requested 0 else x)"
      using ok y by auto
    show ?thesis using x un [OF x(1)] by auto
  qed
  have none: "map_of states p = None \<longleftrightarrow> map_of (in_states s) p = None" for p using ok by simp
  have req: "requested_entry s' e \<longleftrightarrow> (case map_of (in_states s) (entry_path e) of
      Some (_, st) \<Rightarrow> st = AwaitingResolution | None \<Rightarrow> False)" for e
  proof (cases "map_of (in_states s) (entry_path e)")
    case None
    then have "map_of states (entry_path e) = None" by (simp add: none)
    then show ?thesis using None by (simp add: requested_entry_def s')
  next
    case (Some ix)
    obtain i x where ix: "ix = (i, x)" by (cases ix)
    have "map_of states (entry_path e) = Some (i, if x = AwaitingResolution then Requested 0 else x)"
      using ok Some un [of "entry_path e" i x] by (simp add: ix)
    moreover have "x \<noteq> Received" "x \<noteq> Requested r" for r
      using input_invD(3) [OF inv, of "entry_path e" i x] Some flags by (auto simp: ix)
    ultimately show ?thesis using Some by (simp add: requested_entry_def s' ix)
  qed
  have "input_inv received reported s'"
  proof (rule input_invI, goal_cases)
    case (3 p i y)
    then have "map_of states p = Some (i, y)" by (simp add: s')
    from lk [OF this] obtain x where x: "map_of (in_states s) p = Some (i, x)"
      "y = (if x = AwaitingResolution then Requested 0 else x)" by blast
    show ?case using input_invD [OF inv x(1)] flags x(2) by (cases x) (auto simp: s')
  next
    case (4 p)
    then show ?case using inv none by (simp add: s' input_inv_def)
  next
    case 6
    have "filter (requested_entry s') ?ms = unresolved_entries s"
      unfolding unresolved_entries_def by (rule filter_cong) (simp_all add: req)
    then show ?case using total_within_ok [OF v] by (cases "unresolved_entries s = []") (auto simp: s' word_le_nat_alt)
  qed (use inv ok flags in \<open>auto simp: input_inv_def s'\<close>)
  then show ?thesis by (simp add: s')
qed

lemma receive_input_chunk_inv:
  assumes inv: "input_inv received reported s" and r: "receive_input_chunk meta n s = Inr s'"
  shows "input_inv (received(meta_path meta := received (meta_path meta) + unat n)) reported s' \<and>
    in_maximum_total_bytes s' = in_maximum_total_bytes s \<and> in_manifest s' = in_manifest s"
proof -
  let ?p = "meta_path meta" and ?ms = "manifest_paths (in_manifest s)"
  from r obtain i prior t where flag: "in_request_created s"
    and lk: "map_of (in_states s) ?p = Some (i, Requested prior)"
    and t: "unat t = unat prior + unat n" "\<not> entry_nar_size (?ms ! i) < t"
      "meta_final_chunk meta \<longleftrightarrow> t = entry_nar_size (?ms ! i)"
    and s': "s' = s\<lparr>in_states := set_entry ?p (i, if meta_final_chunk meta then Received else Requested t) (in_states s)\<rparr>"
    unfolding receive_input_chunk_def
    by (auto simp: Let_def checked_add_u64_eq_Some split: if_splits option.splits input_state.splits)
  note e = input_invD [OF inv lk]
  have req: "requested_entry s' = requested_entry s"
    using lk by (auto simp: fun_eq_iff requested_entry_def s' map_of_set_entry)
  have "input_inv (received(?p := received ?p + unat n)) reported s'"
  proof (rule input_invI, goal_cases)
    case (3 q j y)
    show ?case
    proof (cases "q = ?p")
      case True
      then have "j = i" "y = (if meta_final_chunk meta then Received else Requested t)"
        using 3 lk by (simp_all add: s' map_of_set_entry)
      then show ?thesis using e t True by (cases "t = entry_nar_size (?ms ! i)") (auto simp: s' flag not_less)
    next
      case False
      then have "map_of (in_states s) q = Some (j, y)" using 3 by (simp add: s' map_of_set_entry)
      from input_invD [OF inv this] False show ?thesis by (cases y) (simp_all add: s')
    qed
  next
    case (4 q)
    then show ?case using inv lk by (auto simp: s' map_of_set_entry input_inv_def split: if_splits)
  qed (use inv req in \<open>auto simp: input_inv_def s'\<close>)
  then show ?thesis by (simp add: s')
qed

lemma entry_state:
  assumes inv: "input_inv received reported s" and mem: "e \<in> set (manifest_paths (in_manifest s))"
  obtains i st where "map_of (in_states s) (entry_path e) = Some (i, st)"
    "(entry_path e, (i, st)) \<in> set (in_states s)" "input_state_ok received reported s e st"
proof -
  let ?ms = "manifest_paths (in_manifest s)"
  have "entry_path e \<in> set (map fst (in_states s))" using inv mem by (simp add: input_inv_def)
  then obtain i st where lk: "map_of (in_states s) (entry_path e) = Some (i, st)"
    by (cases "map_of (in_states s) (entry_path e)") (auto simp: map_of_eq_None_iff)
  obtain j where j: "j < length ?ms" "?ms ! j = e" using mem unfolding in_set_conv_nth by blast
  have "distinct (map entry_path ?ms)" using inv by (simp add: input_inv_def)
  then have "i = j"
    using nth_eq_iff_index_eq [of "map entry_path ?ms" i j] input_invD(1,2) [OF inv lk] j by simp
  then show ?thesis using that [OF lk map_of_SomeD [OF lk]] input_invD(3) [OF inv lk] j by simp
qed

lemma ready_settled:
  assumes "input_inv received reported s" and "ready_to_build s = Inr ()" and "e \<in> set (manifest_paths (in_manifest s))"
  shows "entry_path e \<in> reported \<or> received (entry_path e) = unat (entry_nar_size e)"
proof -
  obtain i st where st: "(entry_path e, (i, st)) \<in> set (in_states s)" "input_state_ok received reported s e st"
    using entry_state [OF assms(1,3)] by blast
  then have "input_settled st" using assms(2) by (auto simp: ready_to_build_def list_all_iff split: if_splits)
  then show ?thesis using st(2) by (auto simp: input_settled_def)
qed

lemma input_total:
  assumes inv: "input_inv received reported s"
  shows "sum_list (map (\<lambda>e. received (entry_path e)) (manifest_paths (in_manifest s))) \<le> unat (in_maximum_total_bytes s)"
proof -
  let ?ms = "manifest_paths (in_manifest s)"
  have "received (entry_path e) \<le> (if requested_entry s e then unat (entry_nar_size e) else 0)"
    if mem: "e \<in> set ?ms" for e
  proof -
    obtain i st where st: "map_of (in_states s) (entry_path e) = Some (i, st)" "input_state_ok received reported s e st"
      using entry_state [OF inv mem] by blast
    then show ?thesis by (cases st) (auto simp: requested_entry_def word_le_nat_alt)
  qed
  then have "sum_list (map (\<lambda>e. received (entry_path e)) ?ms) \<le>
      sum_list (map (\<lambda>e. if requested_entry s e then unat (entry_nar_size e) else 0) ?ms)"
    by (rule sum_list_mono)
  also have "\<dots> = sum_list (map (unat \<circ> entry_nar_size) (filter (requested_entry s) ?ms))"
    by (simp add: sum_list_map_filter' comp_def)
  also have "\<dots> \<le> unat (in_maximum_total_bytes s)" using inv by (simp add: input_inv_def)
  finally show ?thesis .
qed

section \<open>What the outputs have received\<close>

primrec output_state_ok :: "(bytes \<times> nat) list \<Rightarrow> (bytes \<Rightarrow> nat) \<Rightarrow> bytes \<Rightarrow> output_state \<Rightarrow> bool" where
  "output_state_ok declared received p Expected \<longleftrightarrow> p \<notin> fst ` set declared \<and> received p = 0"
| "output_state_ok declared received p (Declared n r) \<longleftrightarrow>
     (p, unat n) \<in> set declared \<and> received p = unat r \<and> r \<le> n"
| "output_state_ok declared received p OutputReceived \<longleftrightarrow> (p, received p) \<in> set declared"
| "output_state_ok declared received p Accepted \<longleftrightarrow> (p, received p) \<in> set declared"

definition output_inv :: "(bytes \<times> nat) list \<Rightarrow> (bytes \<Rightarrow> nat) \<Rightarrow> output_session \<Rightarrow> bool" where
  "output_inv declared received s \<longleftrightarrow>
     (\<forall>p st. map_of (out_states s) p = Some st \<longrightarrow> output_state_ok declared received p st) \<and>
     (\<forall>p. map_of (out_states s) p = None \<longrightarrow> received p = 0 \<and> p \<notin> fst ` set declared) \<and>
     distinct (map fst declared) \<and> sum_list (map snd declared) = unat (out_declared_total_bytes s) \<and>
     out_declared_total_bytes s \<le> out_maximum_total_bytes s"

lemma output_invD:
  assumes "output_inv declared received s"
  shows "map_of (out_states s) p = Some st \<Longrightarrow> output_state_ok declared received p st"
    and "map_of (out_states s) p = None \<Longrightarrow> received p = 0 \<and> p \<notin> fst ` set declared"
    and "distinct (map fst declared)" and "sum_list (map snd declared) = unat (out_declared_total_bytes s)"
    and "out_declared_total_bytes s \<le> out_maximum_total_bytes s"
  using assms unfolding output_inv_def by blast+

lemma output_invI:
  assumes "\<And>p st. map_of (out_states s) p = Some st \<Longrightarrow> output_state_ok declared received p st"
    and "\<And>p. map_of (out_states s) p = None \<Longrightarrow> received p = 0 \<and> p \<notin> fst ` set declared"
    and "distinct (map fst declared)" and "sum_list (map snd declared) = unat (out_declared_total_bytes s)"
    and "out_declared_total_bytes s \<le> out_maximum_total_bytes s"
  shows "output_inv declared received s"
  using assms unfolding output_inv_def by blast

lemma expect_outputs_ok:
  assumes "expect_outputs states outputs = Inr states'"
    and "\<And>p st. map_of states p = Some st \<Longrightarrow> st = Expected"
  shows "map fst states' = map fst states @ outputs \<and> (\<forall>p st. map_of states' p = Some st \<longrightarrow> st = Expected)"
  using assms
proof (induction outputs arbitrary: states)
  case (Cons p ps)
  then have r: "expect_outputs (states @ [(p, Expected)]) ps = Inr states'" by (auto split: if_splits)
  have e: "\<And>q st. map_of (states @ [(p, Expected)]) q = Some st \<Longrightarrow> st = Expected"
    using Cons.prems(2) by (auto simp: map_add_def split: if_splits option.splits)
  show ?case using Cons.IH [OF r e] by simp
qed simp

lemma new_output_session_inv:
  assumes "new_output_session outputs k n t d = Inr s"
  shows "output_inv [] (\<lambda>_. 0) s" and "map fst (out_states s) = outputs"
    and "out_maximum_total_bytes s = t" and "\<not> out_complete s"
proof -
  from assms obtain states where e: "expect_outputs [] outputs = Inr states" and s: "s = \<lparr>out_states = states,
      out_maximum_references = k, out_maximum_nar_bytes = n, out_maximum_total_bytes = t,
      out_maximum_diagnostic_bytes = d, out_declared_total_bytes = 0, out_complete = False\<rparr>"
    by (auto simp: new_output_session_def split: if_splits)
  note ok = expect_outputs_ok [OF e]
  show "output_inv [] (\<lambda>_. 0) s"
  proof (rule output_invI, goal_cases)
    case (1 p st)
    then have "st = Expected" using ok by (simp add: s)
    then show ?case by simp
  qed (auto simp: s)
  show "map fst (out_states s) = outputs" using ok by (simp add: s)
  show "out_maximum_total_bytes s = t" "\<not> out_complete s" by (simp_all add: s)
qed

lemma declare_output_inv:
  assumes inv: "output_inv declared received s" and r: "declare_output meta s = Inr s'"
  shows "output_inv (declared @ [(entry_path meta, unat (entry_nar_size meta))]) received s'"
    and "map fst (out_states s') = map fst (out_states s)"
    and "out_maximum_total_bytes s' = out_maximum_total_bytes s" and "out_complete s' = out_complete s" "\<not> out_complete s"
proof -
  let ?p = "entry_path meta"
  from r obtain t where lk: "map_of (out_states s) ?p = Some Expected" and c: "\<not> out_complete s"
    and t: "unat t = unat (out_declared_total_bytes s) + unat (entry_nar_size meta)" "t \<le> out_maximum_total_bytes s"
    and s': "s' = s\<lparr>out_states := set_entry ?p (Declared (entry_nar_size meta) 0) (out_states s), out_declared_total_bytes := t\<rparr>"
    unfolding declare_output_def by (auto simp: checked_add_u64_eq_Some split: if_splits option.splits)
  have p: "?p \<notin> fst ` set declared" "received ?p = 0" using output_invD(1) [OF inv lk] by simp_all
  show "output_inv (declared @ [(?p, unat (entry_nar_size meta))]) received s'"
  proof (rule output_invI, goal_cases)
    case (1 q st)
    show ?case
    proof (cases "q = ?p")
      case False
      then show ?thesis using 1 output_invD(1) [OF inv, of q st]
        by (cases st) (auto simp: s' map_of_set_entry)
    qed (use 1 lk p in \<open>auto simp: s' map_of_set_entry\<close>)
  next
    case (2 q)
    then show ?case using output_invD(2) [OF inv, of q] lk by (auto simp: s' map_of_set_entry split: if_splits)
  qed (use output_invD(3-5) [OF inv] t p in \<open>auto simp: s'\<close>)
  show "map fst (out_states s') = map fst (out_states s)" "out_maximum_total_bytes s' = out_maximum_total_bytes s"
    "out_complete s' = out_complete s" "\<not> out_complete s" by (simp_all add: s' c)
qed

lemma receive_output_chunk_inv:
  assumes inv: "output_inv declared received s" and r: "receive_output_chunk p offset n final s = Inr s'"
  shows "output_inv declared (received(p := received p + unat n)) s'"
    and "map fst (out_states s') = map fst (out_states s)"
    and "out_maximum_total_bytes s' = out_maximum_total_bytes s" and "out_complete s' = out_complete s" "\<not> out_complete s"
proof -
  from r obtain size prior t where lk: "map_of (out_states s) p = Some (Declared size prior)" and c: "\<not> out_complete s"
    and t: "unat t = unat prior + unat n" "\<not> size < t" "final \<longleftrightarrow> t = size"
    and s': "s' = s\<lparr>out_states := set_entry p (if final then OutputReceived else Declared size t) (out_states s)\<rparr>"
    unfolding receive_output_chunk_def
    by (auto simp: checked_add_u64_eq_Some split: if_splits option.splits output_state.splits)
  have e: "(p, unat size) \<in> set declared" "received p = unat prior" "prior \<le> size"
    using output_invD(1) [OF inv lk] by simp_all
  show "output_inv declared (received(p := received p + unat n)) s'"
  proof (rule output_invI, goal_cases)
    case (1 q st)
    show ?case
    proof (cases "q = p")
      case True
      then have "st = (if final then OutputReceived else Declared size t)" using 1 lk by (simp add: s' map_of_set_entry)
      then show ?thesis using True t e by (cases "t = size") (auto simp: not_less)
    next
      case False
      then show ?thesis using 1 output_invD(1) [OF inv, of q st] by (cases st) (auto simp: s' map_of_set_entry)
    qed
  next
    case (2 q)
    then show ?case using output_invD(2) [OF inv, of q] lk by (auto simp: s' map_of_set_entry split: if_splits)
  qed (use output_invD(3-5) [OF inv] in \<open>auto simp: s'\<close>)
  show "map fst (out_states s') = map fst (out_states s)" "out_maximum_total_bytes s' = out_maximum_total_bytes s"
    "out_complete s' = out_complete s" "\<not> out_complete s" by (simp_all add: s' c)
qed

lemma record_receipt_inv:
  assumes inv: "output_inv declared received s" and r: "record_receipt receipt s = Inr s'"
  shows "output_inv declared received s'"
    and "map fst (out_states s') = map fst (out_states s)"
    and "out_maximum_total_bytes s' = out_maximum_total_bytes s" and "out_complete s' = out_complete s" "\<not> out_complete s"
proof -
  let ?p = "receipt_path receipt"
  from r have lk: "map_of (out_states s) ?p = Some OutputReceived" and c: "\<not> out_complete s"
    and s': "s' = s\<lparr>out_states := set_entry ?p Accepted (out_states s)\<rparr>"
    unfolding record_receipt_def by (auto split: if_splits option.splits)
  show "output_inv declared received s'"
  proof (rule output_invI, goal_cases)
    case (1 q st)
    then show ?case using output_invD(1) [OF inv, of q] lk by (auto simp: s' map_of_set_entry split: if_splits)
  next
    case (2 q)
    then show ?case using output_invD(2) [OF inv, of q] lk by (auto simp: s' map_of_set_entry split: if_splits)
  qed (use output_invD(3-5) [OF inv] in \<open>auto simp: s'\<close>)
  show "map fst (out_states s') = map fst (out_states s)" "out_maximum_total_bytes s' = out_maximum_total_bytes s"
    "out_complete s' = out_complete s" "\<not> out_complete s" by (simp_all add: s' c)
qed

lemma finish_outputs_inv:
  assumes inv: "output_inv declared received s" and r: "finish_outputs result s = Inr s'"
  shows "output_inv declared received s'"
    and "map fst (out_states s') = map fst (out_states s)"
    and "out_maximum_total_bytes s' = out_maximum_total_bytes s" and "out_complete s'" "\<not> out_complete s"
    and "result_outcome result = Built \<Longrightarrow> list_all (\<lambda>(_, st). st = Accepted) (out_states s')"
proof -
  from r have s': "s' = s\<lparr>out_complete := True\<rparr>" and c: "\<not> out_complete s"
    and b: "result_outcome result = Built \<Longrightarrow> list_all (\<lambda>(_, st). st = Accepted) (out_states s)"
    unfolding finish_outputs_def by (auto split: if_splits option.splits build_outcome.splits)
  show "output_inv declared received s'" using inv by (simp add: output_inv_def s')
  show "map fst (out_states s') = map fst (out_states s)" "out_maximum_total_bytes s' = out_maximum_total_bytes s"
    "out_complete s'" "\<not> out_complete s"
    "result_outcome result = Built \<Longrightarrow> list_all (\<lambda>(_, st). st = Accepted) (out_states s')"
    using b by (simp_all add: s' c)
qed

lemma sum_map_of:
  "distinct (map fst xs) \<Longrightarrow> (\<Sum>p\<in>fst ` set xs. case map_of xs p of Some n \<Rightarrow> n | None \<Rightarrow> 0) = sum_list (map snd xs)"
proof (induction xs)
  case (Cons x xs)
  have "(\<Sum>p\<in>fst ` set xs. case map_of (x # xs) p of Some n \<Rightarrow> n | None \<Rightarrow> 0) =
      (\<Sum>p\<in>fst ` set xs. case map_of xs p of Some n \<Rightarrow> n | None \<Rightarrow> 0)"
    using Cons.prems by (intro sum.cong) (auto simp: image_iff)
  then show ?case using Cons by (cases x) simp
qed simp

lemma output_total:
  assumes inv: "output_inv declared received s"
  shows "(\<Sum>p\<in>set (map fst (out_states s)). received p) \<le> unat (out_maximum_total_bytes s)"
proof -
  let ?K = "set (map fst (out_states s))" and ?D = "fst ` set declared"
  let ?n = "\<lambda>p. case map_of declared p of Some n \<Rightarrow> n | None \<Rightarrow> 0"
  have dist: "distinct (map fst declared)" using output_invD(3) [OF inv] .
  have le: "received p \<le> ?n p" if key: "p \<in> ?K" for p
  proof -
    obtain st where "map_of (out_states s) p = Some st"
      using key by (cases "map_of (out_states s) p") (auto simp: map_of_eq_None_iff)
    from output_invD(1) [OF inv this] show ?thesis
      using dist by (cases st) (auto simp: map_of_is_SomeI word_le_nat_alt)
  qed
  have "(\<Sum>p\<in>?K. received p) \<le> (\<Sum>p\<in>?K. ?n p)" using le by (intro sum_mono) blast
  also have "\<dots> \<le> (\<Sum>p\<in>?K \<union> ?D. ?n p)" by (intro sum_mono2) auto
  also have "\<dots> = (\<Sum>p\<in>?D. ?n p)"
  proof (intro sum.mono_neutral_right ballI)
    fix p assume "p \<in> (?K \<union> ?D) - ?D"
    then have "map_of declared p = None" by (simp add: map_of_eq_None_iff)
    then show "?n p = 0" by simp
  qed auto
  also have "\<dots> = sum_list (map snd declared)"
    using dist by (rule sum_map_of)
  also have "\<dots> \<le> unat (out_maximum_total_bytes s)"
    using output_invD(4,5) [OF inv] by (simp add: word_le_nat_alt)
  finally show ?thesis .
qed


section \<open>What a sequence of frames carried\<close>

definition nar_bytes_for :: "metadata_codec \<Rightarrow> frame_kind \<Rightarrow> (direction \<times> frame) list \<Rightarrow> bytes \<Rightarrow> nat" where
  "nar_bytes_for codec kind frames p =
     sum_list (map (\<lambda>(_, f). if frame_kind f = kind \<and>
       map_option meta_path (decode_nar_metadata codec (frame_metadata f)) = Some p
       then length (frame_payload f) else 0) frames)"

definition reported_paths :: "metadata_codec \<Rightarrow> (direction \<times> frame) list \<Rightarrow> bytes list" where
  "reported_paths codec frames =
     concat (map (\<lambda>(_, f). if frame_kind f = ValidPaths
       then (case decode_path_set codec (frame_metadata f) of Some ps \<Rightarrow> set_paths ps | None \<Rightarrow> []) else []) frames)"

definition declared_outputs :: "metadata_codec \<Rightarrow> (direction \<times> frame) list \<Rightarrow> (bytes \<times> nat) list" where
  "declared_outputs codec frames =
     concat (map (\<lambda>(_, f). if frame_kind f = OutputMetadata
       then (case decode_output_metadata codec (frame_metadata f) of
               Some e \<Rightarrow> [(entry_path e, unat (entry_nar_size e))] | None \<Rightarrow> []) else []) frames)"

definition log_sequences :: "metadata_codec \<Rightarrow> (direction \<times> frame) list \<Rightarrow> u64 list" where
  "log_sequences codec frames =
     concat (map (\<lambda>(_, f). if frame_kind f = LogChunk
       then (case decode_log_chunk codec (frame_metadata f) of Some n \<Rightarrow> [n] | None \<Rightarrow> []) else []) frames)"

definition reported_built :: "metadata_codec \<Rightarrow> (direction \<times> frame) list \<Rightarrow> bool" where
  "reported_built codec frames \<longleftrightarrow>
     list_ex (\<lambda>(_, f). frame_kind f = BuildResult \<and>
       map_option result_outcome (decode_build_result codec (frame_metadata f)) = Some Built) frames"

lemmas trace_defs = nar_bytes_for_def reported_paths_def declared_outputs_def log_sequences_def reported_built_def

definition session_inv ::
  "metadata_codec \<Rightarrow> input_manifest \<Rightarrow> u64 \<Rightarrow> u64 \<Rightarrow> (direction \<times> frame) list \<Rightarrow> transfer_session \<Rightarrow> bool" where
  "session_inv codec manifest input_limit output_limit frames s \<longleftrightarrow>
     in_manifest (ts_inputs s) = manifest \<and> in_maximum_total_bytes (ts_inputs s) = input_limit \<and>
     map fst (out_states (ts_outputs s)) = manifest_outputs manifest \<and>
     out_maximum_total_bytes (ts_outputs s) = output_limit \<and>
     input_inv (nar_bytes_for codec InputNar frames) (set (reported_paths codec frames)) (ts_inputs s) \<and>
     output_inv (declared_outputs codec frames) (nar_bytes_for codec OutputNar frames) (ts_outputs s) \<and>
     ts_protocol s \<notin> {AwaitingAuthentication, AwaitingManifest} \<and>
     (ts_protocol s \<noteq> ResolvingInputs \<longrightarrow> ready_to_build (ts_inputs s) = Inr ()) \<and>
     (ts_protocol s = Complete \<longleftrightarrow> out_complete (ts_outputs s)) \<and>
     (reported_built codec frames \<longrightarrow> list_all (\<lambda>(_, st). st = Accepted) (out_states (ts_outputs s)) \<and>
        out_complete (ts_outputs s)) \<and>
     log_sequences codec frames = map of_nat [0..<unat (ts_next_log_sequence s)]"

lemma decode_metadata_Inr: "decode_metadata d bs k = Inr v \<longleftrightarrow> length bs \<le> k \<and> d bs = Some v"
  by (auto simp: decode_metadata_def split: option.splits)

lemma protocol_accept_iff:
  "protocol_accept d k p = Inr q \<longleftrightarrow> (p, d, k, q) \<in>
     {(AwaitingAuthentication, WorkerToGateway, Authenticate, AwaitingManifest),
      (AwaitingManifest, GatewayToWorker, InputManifest, ResolvingInputs),
      (ResolvingInputs, WorkerToGateway, ValidPaths, ResolvingInputs),
      (ResolvingInputs, WorkerToGateway, InputRequest, ResolvingInputs),
      (ResolvingInputs, GatewayToWorker, InputNar, ResolvingInputs),
      (ResolvingInputs, WorkerToGateway, BuildStarted, Building),
      (Building, WorkerToGateway, LogChunk, Building),
      (Building, WorkerToGateway, OutputMetadata, CollectingOutputs),
      (Building, WorkerToGateway, BuildResult, Complete),
      (CollectingOutputs, WorkerToGateway, OutputMetadata, CollectingOutputs),
      (CollectingOutputs, WorkerToGateway, OutputNar, CollectingOutputs),
      (CollectingOutputs, GatewayToWorker, OutputReceipt, CollectingOutputs),
      (CollectingOutputs, WorkerToGateway, BuildResult, Complete)}"
  by (cases p; cases k; cases d) (auto simp: protocol_accept_def)

lemma accept_frame_Inr:
  "accept_frame codec d f s = Inr s' \<longleftrightarrow>
     (\<exists>s1 q. handle_frame codec f s = Inr s1 \<and> protocol_accept d (frame_kind f) (ts_protocol s1) = Inr q \<and>
        s' = s1\<lparr>ts_protocol := q\<rparr>)"
  by (auto simp: accept_frame_def)


lemma nar_bytes_snoc:
  "frame_kind f \<noteq> k \<Longrightarrow> nar_bytes_for codec k (fs @ [(d, f)]) = nar_bytes_for codec k fs"
  "frame_kind f = k \<Longrightarrow> decode_nar_metadata codec (frame_metadata f) = Some m \<Longrightarrow>
     nar_bytes_for codec k (fs @ [(d, f)]) =
     (nar_bytes_for codec k fs)(meta_path m := nar_bytes_for codec k fs (meta_path m) + length (frame_payload f))"
  by (auto simp: nar_bytes_for_def fun_eq_iff)

lemma trace_snoc:
  "reported_paths codec (fs @ [(d, f)]) = reported_paths codec fs @
     (if frame_kind f = ValidPaths
      then (case decode_path_set codec (frame_metadata f) of Some ps \<Rightarrow> set_paths ps | None \<Rightarrow> []) else [])"
  "declared_outputs codec (fs @ [(d, f)]) = declared_outputs codec fs @
     (if frame_kind f = OutputMetadata
      then (case decode_output_metadata codec (frame_metadata f) of
              Some e \<Rightarrow> [(entry_path e, unat (entry_nar_size e))] | None \<Rightarrow> []) else [])"
  "log_sequences codec (fs @ [(d, f)]) = log_sequences codec fs @
     (if frame_kind f = LogChunk
      then (case decode_log_chunk codec (frame_metadata f) of Some n \<Rightarrow> [n] | None \<Rightarrow> []) else [])"
  "reported_built codec (fs @ [(d, f)]) \<longleftrightarrow> reported_built codec fs \<or> frame_kind f = BuildResult \<and>
       map_option result_outcome (decode_build_result codec (frame_metadata f)) = Some Built"
  by (simp_all add: trace_defs)

lemma accept_frame_inv:
  assumes inv: "session_inv codec m ti to fs s" and acc: "accept_frame codec d f s = Inr s'"
    and len: "length (frame_payload f) < usize_limit"
  shows "session_inv codec m ti to (fs @ [(d, f)]) s'"
proof -
  from acc obtain s1 q where h: "handle_frame codec f s = Inr s1"
    and q: "protocol_accept d (frame_kind f) (ts_protocol s1) = Inr q" and s': "s' = s1\<lparr>ts_protocol := q\<rparr>"
    by (auto simp: accept_frame_Inr)
  note I = inv [unfolded session_inv_def]
  note [simp] = handle_frame_def decode_metadata_Inr session_inv_def nar_bytes_snoc trace_snoc protocol_accept_iff s'
  show ?thesis
  proof (cases "frame_kind f")
    case ValidPaths
    with h obtain ps inputs where "decode_path_set codec (frame_metadata f) = Some ps"
      "record_valid_paths ps (ts_inputs s) = Inr inputs" "s1 = s\<lparr>ts_inputs := inputs\<rparr>" by auto
    then show ?thesis using I q record_valid_paths_inv [of _ _ "ts_inputs s" ps inputs] ValidPaths by auto
  next
    case InputRequest
    with h obtain ps inputs where "request_unresolved (ts_inputs s) = Inr (ps, inputs)" "s1 = s\<lparr>ts_inputs := inputs\<rparr>"
      by (auto simp: accept_input_request_def split: if_splits)
    then show ?thesis using I q request_unresolved_inv [of _ _ "ts_inputs s" ps inputs] InputRequest by auto
  next
    case InputNar
    with h obtain meta inputs where "decode_nar_metadata codec (frame_metadata f) = Some meta"
      "receive_input_chunk meta (of_nat (length (frame_payload f))) (ts_inputs s) = Inr inputs"
      "s1 = s\<lparr>ts_inputs := inputs\<rparr>" by auto
    then show ?thesis
      using I q receive_input_chunk_inv [of _ _ "ts_inputs s" meta "of_nat (length (frame_payload f))" inputs]
        InputNar unat_of_nat_u64 [OF len] by auto
  next
    case BuildStarted
    with h have "ready_to_build (ts_inputs s) = Inr ()" "s1 = s" by (auto split: if_splits)
    then show ?thesis using I q BuildStarted by auto
  next
    case LogChunk
    with h obtain n where "decode_log_chunk codec (frame_metadata f) = Some (ts_next_log_sequence s)"
      "unat n = Suc (unat (ts_next_log_sequence s))" "s1 = s\<lparr>ts_next_log_sequence := n\<rparr>"
      by (auto simp: accept_log_chunk_def checked_add_u64_eq_Some split: if_splits option.splits)
    then show ?thesis using I q LogChunk by auto
  next
    case OutputMetadata
    with h obtain meta outputs where "decode_output_metadata codec (frame_metadata f) = Some meta"
      "declare_output meta (ts_outputs s) = Inr outputs" "s1 = s\<lparr>ts_outputs := outputs\<rparr>" by auto
    then show ?thesis using I q declare_output_inv [of _ _ "ts_outputs s" meta outputs] OutputMetadata by auto
  next
    case OutputNar
    with h obtain meta outputs where "decode_nar_metadata codec (frame_metadata f) = Some meta"
      "receive_output_chunk (meta_path meta) (meta_offset meta) (of_nat (length (frame_payload f))) (meta_final_chunk meta)
         (ts_outputs s) = Inr outputs" "s1 = s\<lparr>ts_outputs := outputs\<rparr>" by auto
    then show ?thesis
      using I q receive_output_chunk_inv [of _ _ "ts_outputs s" "meta_path meta" "meta_offset meta"
        "of_nat (length (frame_payload f))" "meta_final_chunk meta" outputs] OutputNar unat_of_nat_u64 [OF len] by auto
  next
    case OutputReceipt
    with h obtain r outputs where "record_receipt r (ts_outputs s) = Inr outputs" "s1 = s\<lparr>ts_outputs := outputs\<rparr>" by auto
    then show ?thesis using I q record_receipt_inv [of _ _ "ts_outputs s" r outputs] OutputReceipt by auto
  next
    case BuildResult
    with h obtain r outputs where "decode_build_result codec (frame_metadata f) = Some r"
      "finish_outputs r (ts_outputs s) = Inr outputs" "s1 = s\<lparr>ts_outputs := outputs\<rparr>" by auto
    then show ?thesis using I q finish_outputs_inv [of _ _ "ts_outputs s" r outputs] BuildResult by auto
  qed (use h in auto)
qed


lemma accept_frames_append:
  "accept_frames codec (fs @ gs) s = result_then (accept_frames codec fs s) (accept_frames codec gs)"
  by (induction fs arbitrary: s) (auto simp: result_then_def split: sum.splits)

lemma accept_frames_inv:
  assumes "session_inv codec m ti to [] s" and "list_all (\<lambda>(d, f). length (frame_payload f) < usize_limit) fs"
    and "accept_frames codec fs s = Inr s'"
  shows "session_inv codec m ti to fs s'"
  using assms(2,3)
proof (induction fs arbitrary: s' rule: rev_induct)
  case Nil
  then show ?case using assms(1) by simp
next
  case (snoc x fs)
  obtain d f where x: "x = (d, f)" by (cases x)
  from snoc.prems(2) obtain s1 where "accept_frames codec fs s = Inr s1" "accept_frame codec d f s1 = Inr s'"
    by (auto simp: accept_frames_append x)
  then show ?case using snoc accept_frame_inv by (auto simp: x)
qed

lemma nar_bytes_Nil: "nar_bytes_for codec k [] = (\<lambda>_. 0)"
  by (simp add: nar_bytes_for_def fun_eq_iff)

lemma new_transfer_session_inv:
  assumes "new_transfer_session m k n ti n' to l d = Inr s"
  shows "session_inv codec m ti to [] s"
proof -
  from assms obtain outputs inputs where o: "new_output_session (manifest_outputs m) k n' to d = Inr outputs"
    and i: "new_input_session m k n ti = Inr inputs"
    and s: "s = \<lparr>ts_protocol = resolving_inputs, ts_inputs = inputs, ts_outputs = outputs,
      ts_derivation_path = manifest_derivation_path m, ts_maximum_log_chunk_bytes = l,
      ts_maximum_metadata_bytes = d, ts_next_log_sequence = 0\<rparr>"
    by (auto simp: new_transfer_session_def split: if_splits)
  have "in_manifest inputs = m" "in_maximum_total_bytes inputs = ti"
    using i by (auto simp: new_input_session_def split: if_splits)
  then show ?thesis
    using new_input_session_inv [OF i] new_output_session_inv [OF o]
    by (simp add: session_inv_def s resolving_inputs_def nar_bytes_Nil)
       (simp add: trace_defs)
qed

text \<open>The sessions that a sequence of frames can lead to from a fresh one.\<close>

definition transfer_run ::
  "metadata_codec \<Rightarrow> input_manifest \<Rightarrow> nat \<Rightarrow> u64 \<Rightarrow> u64 \<Rightarrow> u64 \<Rightarrow> u64 \<Rightarrow> nat \<Rightarrow> nat \<Rightarrow> (direction \<times> frame) list \<Rightarrow>
   io_error + transfer_session" where
  "transfer_run codec manifest maximum_paths input_nar input_total output_nar output_total log_limit metadata_limit frames =
     result_then (new_transfer_session manifest maximum_paths input_nar input_total output_nar output_total
       log_limit metadata_limit) (accept_frames codec frames)"

lemma transfer_run_inv:
  assumes "transfer_run codec m k n ti n' to l d fs = Inr s"
    and "list_all (\<lambda>(d, f). length (frame_payload f) < usize_limit) fs"
  shows "session_inv codec m ti to fs s"
  using assms accept_frames_inv [OF new_transfer_session_inv] by (auto simp: transfer_run_def)

section \<open>An example run\<close>

definition example_source :: bytes where
  "example_source = entry_path (hd (manifest_paths example_transfer_manifest))"

definition example_output_path :: bytes where
  "example_output_path = hd (manifest_outputs example_transfer_manifest)"

definition example_codec :: metadata_codec where
  "example_codec =
     \<lparr>decode_path_set = (\<lambda>bs. Some \<lparr>set_paths = (if bs = [] then [] else [example_source])\<rparr>),
      decode_nar_metadata = (\<lambda>bs. Some (if bs = []
        then \<lparr>meta_path = example_source, meta_nar_hash = replicate 64 48, meta_nar_size = 5, meta_offset = 0,
              meta_final_chunk = True\<rparr>
        else \<lparr>meta_path = example_output_path, meta_nar_hash = [], meta_nar_size = 2, meta_offset = 0,
              meta_final_chunk = True\<rparr>)),
      decode_build_started = (\<lambda>_. Some (manifest_derivation_path example_transfer_manifest)),
      decode_log_chunk = (\<lambda>_. Some 0),
      decode_output_metadata = (\<lambda>_. Some \<lparr>entry_path = example_output_path, entry_nar_hash = replicate 64 48,
        entry_nar_size = 2, entry_references = [], entry_deriver = None, entry_content_address = None\<rparr>),
      decode_output_receipt = (\<lambda>_. Some \<lparr>receipt_path = example_output_path, receipt_accepted = True\<rparr>),
      decode_build_result = (\<lambda>_. Some \<lparr>result_outcome = Built, result_diagnostic = None\<rparr>)\<rparr>"

definition example_frames :: "(direction \<times> frame) list" where
  "example_frames =
     [(WorkerToGateway, \<lparr>frame_kind = ValidPaths, frame_metadata = [], frame_payload = []\<rparr>),
      (WorkerToGateway, \<lparr>frame_kind = InputRequest, frame_metadata = [1], frame_payload = []\<rparr>),
      (GatewayToWorker, \<lparr>frame_kind = InputNar, frame_metadata = [], frame_payload = [1, 2, 3, 4, 5]\<rparr>),
      (WorkerToGateway, \<lparr>frame_kind = BuildStarted, frame_metadata = [], frame_payload = []\<rparr>),
      (WorkerToGateway, \<lparr>frame_kind = LogChunk, frame_metadata = [], frame_payload = [9]\<rparr>),
      (WorkerToGateway, \<lparr>frame_kind = OutputMetadata, frame_metadata = [], frame_payload = []\<rparr>),
      (WorkerToGateway, \<lparr>frame_kind = OutputNar, frame_metadata = [1], frame_payload = [6, 7]\<rparr>),
      (GatewayToWorker, \<lparr>frame_kind = OutputReceipt, frame_metadata = [], frame_payload = []\<rparr>),
      (WorkerToGateway, \<lparr>frame_kind = BuildResult, frame_metadata = [], frame_payload = []\<rparr>)]"

definition example_session :: transfer_session where
  "example_session =
     \<lparr>ts_protocol = Complete,
      ts_inputs = \<lparr>in_manifest = example_transfer_manifest, in_states = [(example_source, (0, Received))],
        in_maximum_paths = 4, in_maximum_nar_bytes = 100, in_maximum_total_bytes = 100,
        in_resolution_recorded = True, in_request_created = True\<rparr>,
      ts_outputs = \<lparr>out_states = [(example_output_path, Accepted)], out_maximum_references = 4,
        out_maximum_nar_bytes = 100, out_maximum_total_bytes = 100, out_maximum_diagnostic_bytes = 10,
        out_declared_total_bytes = 2, out_complete = True\<rparr>,
      ts_derivation_path = manifest_derivation_path example_transfer_manifest,
      ts_maximum_log_chunk_bytes = 10, ts_maximum_metadata_bytes = 10, ts_next_log_sequence = 1\<rparr>"

lemma example_manifest_parts:
  "manifest_outputs example_transfer_manifest = [example_output_path]"
  "manifest_paths example_transfer_manifest = [\<lparr>entry_path = example_source, entry_nar_hash = replicate 64 48,
     entry_nar_size = 5, entry_references = [example_source], entry_deriver = None, entry_content_address = None\<rparr>]"
  by (simp_all add: example_transfer_manifest_def example_output_path_def example_source_def Let_def)

lemma example_paths_valid:
  "validate_transfer_path example_output_path False = Inr ()" "\<not> is_derivation_path example_output_path"
  "validate_transfer_path example_source False = Inr ()" "\<not> is_derivation_path example_source"
proof -
  have "is_derivation_path example_source = False" by code_simp
  then show d: "\<not> is_derivation_path example_source" by simp
  show o: "validate_transfer_path example_output_path False = Inr ()"
    using example_transfer_manifest_valid by (simp add: validate_manifest_iff example_manifest_parts)
  then show "\<not> is_derivation_path example_output_path" by (simp add: validate_transfer_path_iff)
  have "validate_manifest_entry 4 100 (hd (manifest_paths example_transfer_manifest)) = Inr ()"
    using example_transfer_manifest_valid by (simp add: validate_manifest_iff example_manifest_parts)
  then show "validate_transfer_path example_source False = Inr ()"
    using d by (simp add: validate_manifest_entry_def example_manifest_parts)
qed

lemma example_hash_valid: "validate_nar_hash (replicate 64 48) = Inr ()"
  by code_simp

lemma example_transfer_run:
  "transfer_run example_codec example_transfer_manifest 4 100 100 100 100 10 10 example_frames = Inr example_session"
  unfolding transfer_run_def example_frames_def
  by (simp add: new_transfer_session_def new_output_session_def new_input_session_def example_transfer_manifest_valid
      example_manifest_parts example_paths_valid example_hash_valid accept_frame_def handle_frame_def
      decode_metadata_def require_empty_payload_def example_codec_def record_valid_paths_def validate_path_set_def
      accept_input_request_def request_unresolved_def unresolved_entries_def checked_add_u64_def usize_limit_def
      set_entry_def receive_input_chunk_def validate_nar_metadata_def ready_to_build_def input_settled_def
      accept_log_chunk_def declare_output_def validate_manifest_entry_def receive_output_chunk_def record_receipt_def
      finish_outputs_def protocol_accept_def resolving_inputs_def example_session_def result_then_def Let_def)

lemma example_frames_short: "list_all (\<lambda>(d, f). length (frame_payload f) < usize_limit) example_frames"
  by (simp add: example_frames_def usize_limit_def)

lemma example_built: "reported_built example_codec example_frames"
  by (simp add: reported_built_def example_frames_def example_codec_def)

section \<open>Properties\<close>

text \<open>
  C2: No build starts on incomplete inputs: once a session has left input resolution, every path of the
  manifest was reported as present by the worker or has received exactly as many payload bytes as the
  manifest states.
\<close>

theorem build_starts_with_all_inputs:
  assumes "transfer_run codec manifest maximum_paths input_nar input_total output_nar output_total log_limit
      metadata_limit frames = Inr s"
    and "list_all (\<lambda>(d, f). length (frame_payload f) < usize_limit) frames"
    and "ts_protocol s \<noteq> ResolvingInputs" and "e \<in> set (manifest_paths manifest)"
  shows "entry_path e \<in> set (reported_paths codec frames) \<or>
    nar_bytes_for codec InputNar frames (entry_path e) = unat (entry_nar_size e)"
proof -
  note inv = transfer_run_inv [OF assms(1,2), unfolded session_inv_def]
  show ?thesis using ready_settled [of _ _ "ts_inputs s" e] inv assms(3,4) by blast
qed

theorem build_starts_with_all_inputs_witness:
  "transfer_run example_codec example_transfer_manifest 4 100 100 100 100 10 10 example_frames = Inr example_session \<and>
   ts_protocol example_session \<noteq> ResolvingInputs \<and>
   (example_source \<in> set (reported_paths example_codec example_frames) \<or>
    nar_bytes_for example_codec InputNar example_frames example_source = 5)"
  using build_starts_with_all_inputs [OF example_transfer_run example_frames_short,
      of "hd (manifest_paths example_transfer_manifest)"] example_transfer_run
  by (simp add: example_manifest_parts example_session_def)

text \<open>
  C6: A completed session that reported success has received every output of the manifest in full: the
  output was declared, and exactly the declared number of bytes arrived for it.
\<close>

theorem built_means_outputs_received:
  assumes "transfer_run codec manifest maximum_paths input_nar input_total output_nar output_total log_limit
      metadata_limit frames = Inr s"
    and "list_all (\<lambda>(d, f). length (frame_payload f) < usize_limit) frames"
    and "reported_built codec frames" and "p \<in> set (manifest_outputs manifest)"
  shows "transfer_complete s \<and> (p, nar_bytes_for codec OutputNar frames p) \<in> set (declared_outputs codec frames)"
proof -
  note inv = transfer_run_inv [OF assms(1,2), unfolded session_inv_def]
  have "p \<in> set (map fst (out_states (ts_outputs s)))" using inv assms(4) by simp
  then obtain st where lk: "map_of (out_states (ts_outputs s)) p = Some st"
    by (cases "map_of (out_states (ts_outputs s)) p") (auto simp: map_of_eq_None_iff)
  then have "st = Accepted" using inv assms(3) map_of_SomeD [OF lk] by (auto simp: list_all_iff)
  then show ?thesis using output_invD(1) [of _ _ "ts_outputs s" p st] lk inv assms(3) by (auto simp: transfer_complete_def)
qed

theorem built_means_outputs_received_witness:
  "reported_built example_codec example_frames \<and> transfer_complete example_session \<and>
   (example_output_path, nar_bytes_for example_codec OutputNar example_frames example_output_path)
     \<in> set (declared_outputs example_codec example_frames)"
  using built_means_outputs_received [OF example_transfer_run example_frames_short example_built,
      of example_output_path] example_built by (simp add: example_manifest_parts)

text \<open>
  C12: The bytes accepted in a session never exceed the configured totals, neither over all inputs nor
  over all outputs.
\<close>

theorem transfer_totals_bounded:
  assumes "transfer_run codec manifest maximum_paths input_nar input_total output_nar output_total log_limit
      metadata_limit frames = Inr s"
    and "list_all (\<lambda>(d, f). length (frame_payload f) < usize_limit) frames"
  shows "sum_list (map (\<lambda>e. nar_bytes_for codec InputNar frames (entry_path e)) (manifest_paths manifest)) \<le> unat input_total
    \<and> (\<Sum>p\<in>set (manifest_outputs manifest). nar_bytes_for codec OutputNar frames p) \<le> unat output_total"
  using transfer_run_inv [OF assms, unfolded session_inv_def] input_total [of _ _ "ts_inputs s"]
    output_total [of _ _ "ts_outputs s"] by auto

theorem transfer_totals_bounded_witness:
  "nar_bytes_for example_codec InputNar example_frames example_source \<le> 100 \<and>
   nar_bytes_for example_codec OutputNar example_frames example_output_path \<le> 100"
  using transfer_totals_bounded [OF example_transfer_run example_frames_short] by (simp add: example_manifest_parts)

text \<open>
  C35: The live log of a session has no gap and no repetition: the sequence numbers of the accepted log
  chunks are 0, 1, 2 and so on.
\<close>

theorem log_sequence_gapless:
  assumes "transfer_run codec manifest maximum_paths input_nar input_total output_nar output_total log_limit
      metadata_limit frames = Inr s"
    and "list_all (\<lambda>(d, f). length (frame_payload f) < usize_limit) frames"
  shows "log_sequences codec frames = map of_nat [0..<length (log_sequences codec frames)]"
  using transfer_run_inv [OF assms, unfolded session_inv_def] by simp

theorem log_sequence_gapless_witness:
  "list_all (\<lambda>(d, f). length (frame_payload f) < usize_limit) example_frames \<and>
   log_sequences example_codec example_frames = map of_nat [0..<length (log_sequences example_codec example_frames)]"
  using log_sequence_gapless [OF example_transfer_run example_frames_short] example_frames_short by simp







end
