(* ===== verification/Transfer_Limits.thy ===== *)
theory Transfer_Limits
  imports Prelude
begin

text \<open>
  Transfer limits of \<^verbatim>\<open>telchar/src/service/transfer_limits.rs\<close>: configuration, token buckets with their
  reservations, counts of active and admitted objects, the session byte budget, and the reader and writer
  that apply all of them. Values of \<^verbatim>\<open>u64\<close> and \<^verbatim>\<open>u128\<close> are natural numbers with the overflow checks of the
  code written out. The clock, the source and the sink are parameters; log events and the failure of a
  poisoned mutex are left out.
\<close>

section \<open>Configuration\<close>

record transfer_limits =
  maximum_object_bytes :: nat
  maximum_inbound_session_bytes :: nat
  maximum_outbound_session_bytes :: nat
  maximum_inbound_session_objects :: nat
  maximum_outbound_session_objects :: nat
  maximum_active_inbound_objects :: nat
  maximum_active_outbound_objects :: nat
  inbound_rate_bytes_per_second :: nat
  inbound_burst_bytes :: nat
  outbound_rate_bytes_per_second :: nat
  outbound_burst_bytes :: nat

definition DEFAULT_MAXIMUM_NAR_OBJECT_BYTES :: nat where
  "DEFAULT_MAXIMUM_NAR_OBJECT_BYTES = 16 * 1024 * 1024 * 1024"

definition DEFAULT_MAXIMUM_INBOUND_NAR_SESSION_BYTES :: nat where
  "DEFAULT_MAXIMUM_INBOUND_NAR_SESSION_BYTES = 128 * 1024 * 1024 * 1024"

definition DEFAULT_MAXIMUM_OUTBOUND_NAR_SESSION_BYTES :: nat where
  "DEFAULT_MAXIMUM_OUTBOUND_NAR_SESSION_BYTES = 128 * 1024 * 1024 * 1024"

definition DEFAULT_MAXIMUM_NAR_SESSION_OBJECTS :: nat where
  "DEFAULT_MAXIMUM_NAR_SESSION_OBJECTS = 65536"

definition DEFAULT_MAXIMUM_ACTIVE_NAR_OBJECTS :: nat where
  "DEFAULT_MAXIMUM_ACTIVE_NAR_OBJECTS = 256"

definition DEFAULT_NAR_RATE_BYTES_PER_SECOND :: nat where
  "DEFAULT_NAR_RATE_BYTES_PER_SECOND = 16 * 1024 * 1024 * 1024"

definition DEFAULT_NAR_BURST_BYTES :: nat where
  "DEFAULT_NAR_BURST_BYTES = 64 * 1024 * 1024 * 1024"

lemmas transfer_default_defs =
  DEFAULT_MAXIMUM_NAR_OBJECT_BYTES_def DEFAULT_MAXIMUM_INBOUND_NAR_SESSION_BYTES_def
  DEFAULT_MAXIMUM_OUTBOUND_NAR_SESSION_BYTES_def DEFAULT_MAXIMUM_NAR_SESSION_OBJECTS_def
  DEFAULT_MAXIMUM_ACTIVE_NAR_OBJECTS_def DEFAULT_NAR_RATE_BYTES_PER_SECOND_def DEFAULT_NAR_BURST_BYTES_def

definition default_transfer_limits :: transfer_limits where
  "default_transfer_limits =
     \<lparr>maximum_object_bytes = DEFAULT_MAXIMUM_NAR_OBJECT_BYTES,
      maximum_inbound_session_bytes = DEFAULT_MAXIMUM_INBOUND_NAR_SESSION_BYTES,
      maximum_outbound_session_bytes = DEFAULT_MAXIMUM_OUTBOUND_NAR_SESSION_BYTES,
      maximum_inbound_session_objects = DEFAULT_MAXIMUM_NAR_SESSION_OBJECTS,
      maximum_outbound_session_objects = DEFAULT_MAXIMUM_NAR_SESSION_OBJECTS,
      maximum_active_inbound_objects = DEFAULT_MAXIMUM_ACTIVE_NAR_OBJECTS,
      maximum_active_outbound_objects = DEFAULT_MAXIMUM_ACTIVE_NAR_OBJECTS,
      inbound_rate_bytes_per_second = DEFAULT_NAR_RATE_BYTES_PER_SECOND,
      inbound_burst_bytes = DEFAULT_NAR_BURST_BYTES,
      outbound_rate_bytes_per_second = DEFAULT_NAR_RATE_BYTES_PER_SECOND,
      outbound_burst_bytes = DEFAULT_NAR_BURST_BYTES\<rparr>"

definition positive :: "string \<Rightarrow> io_error + nat" where
  "positive text =
     (case parse_u64 text of
        None \<Rightarrow> Inl (invalid_data ''NAR transfer limit must be a positive integer'')
      | Some n \<Rightarrow> if n = 0 then Inl (invalid_data ''NAR transfer limit must be positive'') else Inr n)"

definition parse_transfer_limits ::
  "string \<Rightarrow> string \<Rightarrow> string \<Rightarrow> string \<Rightarrow> string \<Rightarrow> string \<Rightarrow> string \<Rightarrow> io_error + transfer_limits" where
  "parse_transfer_limits object inbound outbound inbound_session_objects outbound_session_objects
     active_inbound_objects active_outbound_objects =
     result_then (positive object) (\<lambda>ob.
     result_then (positive inbound) (\<lambda>i.
     result_then (positive outbound) (\<lambda>u.
     result_then (positive inbound_session_objects) (\<lambda>iso.
     result_then (positive outbound_session_objects) (\<lambda>oso.
     result_then (positive active_inbound_objects) (\<lambda>aio.
     result_then (positive active_outbound_objects) (\<lambda>aoo.
     Inr (default_transfer_limits\<lparr>maximum_object_bytes := ob, maximum_inbound_session_bytes := i,
       maximum_outbound_session_bytes := u, maximum_inbound_session_objects := iso,
       maximum_outbound_session_objects := oso, maximum_active_inbound_objects := aio,
       maximum_active_outbound_objects := aoo\<rparr>))))))))"

definition parse_rates :: "string \<Rightarrow> string \<Rightarrow> string \<Rightarrow> string \<Rightarrow> io_error + (nat \<times> nat \<times> nat \<times> nat)" where
  "parse_rates inbound_rate inbound_burst outbound_rate outbound_burst =
     result_then (positive inbound_rate) (\<lambda>ir.
     result_then (positive inbound_burst) (\<lambda>ib.
     result_then (positive outbound_rate) (\<lambda>r.
     result_then (positive outbound_burst) (\<lambda>ob.
     Inr (ir, ib, r, ob)))))"

text \<open>The environment is a parameter: a variable that is absent or not text reads as nothing.\<close>

definition env_or :: "(string \<Rightarrow> string option) \<Rightarrow> string \<Rightarrow> nat \<Rightarrow> string" where
  "env_or env name default_value = (case env name of Some v \<Rightarrow> v | None \<Rightarrow> show_nat default_value)"

definition transfer_limits_from_environment :: "(string \<Rightarrow> string option) \<Rightarrow> io_error + transfer_limits" where
  "transfer_limits_from_environment env =
     (let d = default_transfer_limits in
      result_then (parse_transfer_limits
        (env_or env ''TELCHAR_MAX_NAR_OBJECT_BYTES'' (maximum_object_bytes d))
        (env_or env ''TELCHAR_MAX_NAR_INBOUND_SESSION_BYTES'' (maximum_inbound_session_bytes d))
        (env_or env ''TELCHAR_MAX_NAR_OUTBOUND_SESSION_BYTES'' (maximum_outbound_session_bytes d))
        (env_or env ''TELCHAR_MAX_NAR_INBOUND_SESSION_OBJECTS'' (maximum_inbound_session_objects d))
        (env_or env ''TELCHAR_MAX_NAR_OUTBOUND_SESSION_OBJECTS'' (maximum_outbound_session_objects d))
        (env_or env ''TELCHAR_MAX_NAR_ACTIVE_INBOUND_OBJECTS'' (maximum_active_inbound_objects d))
        (env_or env ''TELCHAR_MAX_NAR_ACTIVE_OUTBOUND_OBJECTS'' (maximum_active_outbound_objects d))) (\<lambda>limits.
      result_then (parse_rates
        (env_or env ''TELCHAR_NAR_INBOUND_RATE_BYTES_PER_SECOND'' (inbound_rate_bytes_per_second d))
        (env_or env ''TELCHAR_NAR_INBOUND_BURST_BYTES'' (inbound_burst_bytes d))
        (env_or env ''TELCHAR_NAR_OUTBOUND_RATE_BYTES_PER_SECOND'' (outbound_rate_bytes_per_second d))
        (env_or env ''TELCHAR_NAR_OUTBOUND_BURST_BYTES'' (outbound_burst_bytes d))) (\<lambda>(ir, ib, r, ob).
      Inr (limits\<lparr>inbound_rate_bytes_per_second := ir, inbound_burst_bytes := ib,
        outbound_rate_bytes_per_second := r, outbound_burst_bytes := ob\<rparr>))))"

section \<open>Token buckets\<close>

record token_bucket =
  bucket_rate :: nat
  bucket_burst :: nat
  bucket_available :: nat
  bucket_fraction :: nat

record rate_buckets =
  bucket_inbound :: token_bucket
  bucket_outbound :: token_bucket
  last_observation :: nat


definition refill :: "nat \<Rightarrow> token_bucket \<Rightarrow> token_bucket" where
  "refill elapsed b =
     (if bucket_available b = bucket_burst b then b\<lparr>bucket_fraction := 0\<rparr>
      else if \<not> (elapsed * bucket_rate b < 2 ^ 128 \<and> elapsed * bucket_rate b + bucket_fraction b < 2 ^ 128)
      then b\<lparr>bucket_available := bucket_burst b, bucket_fraction := 0\<rparr>
      else
        let credit = elapsed * bucket_rate b + bucket_fraction b;
            available = min (min (bucket_available b + credit div 1000000000) (2 ^ 128 - 1)) (bucket_burst b) in
        b\<lparr>bucket_available := available,
          bucket_fraction := if available = bucket_burst b then 0 else credit mod 1000000000\<rparr>)"


record rate_reservation =
  reservation_inbound :: bool
  reservation_reserved :: nat
  reservation_committed :: nat

definition bucket_of :: "bool \<Rightarrow> rate_buckets \<Rightarrow> token_bucket" where
  "bucket_of inbound bs = (if inbound then bucket_inbound bs else bucket_outbound bs)"

definition set_bucket :: "bool \<Rightarrow> token_bucket \<Rightarrow> rate_buckets \<Rightarrow> rate_buckets" where
  "set_bucket inbound b bs = (if inbound then bs\<lparr>bucket_inbound := b\<rparr> else bs\<lparr>bucket_outbound := b\<rparr>)"

text \<open>\<^verbatim>\<open>RateAdmissionState::reserve\<close> with the clock reading as an argument.\<close>

definition observe :: "nat \<Rightarrow> rate_buckets \<Rightarrow> rate_buckets" where
  "observe observed bs =
     (let elapsed = observed - last_observation bs in
      \<lparr>bucket_inbound = refill elapsed (bucket_inbound bs), bucket_outbound = refill elapsed (bucket_outbound bs),
       last_observation = max (last_observation bs) observed\<rparr>)"

definition reserve :: "nat \<Rightarrow> nat \<Rightarrow> bool \<Rightarrow> rate_buckets \<Rightarrow> rate_reservation option \<times> rate_buckets" where
  "reserve observed requested inbound bs =
     (if requested = 0 then (None, bs)
      else
        let bs1 = observe observed bs; bucket = bucket_of inbound bs1;
            reserved = min requested (bucket_available bucket) in
        if reserved = 0 then (None, bs1)
        else (Some \<lparr>reservation_inbound = inbound, reservation_reserved = reserved, reservation_committed = 0\<rparr>,
              set_bucket inbound (bucket\<lparr>bucket_available := bucket_available bucket - reserved\<rparr>) bs1))"

definition commit :: "nat \<Rightarrow> rate_reservation \<Rightarrow> io_error + rate_reservation" where
  "commit amount r =
     (if reservation_reserved r - reservation_committed r < amount
      then Inl (invalid_data ''rate reservation exceeded'')
      else Inr (r\<lparr>reservation_committed := reservation_committed r + amount\<rparr>))"

definition drop_reservation :: "rate_reservation \<Rightarrow> rate_buckets \<Rightarrow> rate_buckets" where
  "drop_reservation r bs =
     (let unused = reservation_reserved r - reservation_committed r;
          bucket = bucket_of (reservation_inbound r) bs in
      if unused = 0 then bs
      else set_bucket (reservation_inbound r)
        (bucket\<lparr>bucket_available := min (saturating_add (bucket_available bucket) unused) (bucket_burst bucket)\<rparr>) bs)"

section \<open>Object counts\<close>

definition charge_object_count :: "nat \<Rightarrow> nat \<Rightarrow> io_error + nat" where
  "charge_object_count current limit =
     (case checked_add current 1 of
        None \<Rightarrow> Inl (invalid_data ''object count exceeded'')
      | Some next_count \<Rightarrow> if limit < next_count then Inl (invalid_data ''object count exceeded'') else Inr next_count)"

record object_counts =
  inbound_objects :: nat
  outbound_objects :: nat

definition admit_session_inbound :: "nat \<Rightarrow> object_counts \<Rightarrow> io_error + object_counts" where
  "admit_session_inbound limit c =
     result_then (result_map_err (\<lambda>_. invalid_data ''NAR inbound session object limit exceeded'')
       (charge_object_count (inbound_objects c) limit)) (\<lambda>n.
     Inr (c\<lparr>inbound_objects := n\<rparr>))"

definition admit_session_outbound :: "nat \<Rightarrow> object_counts \<Rightarrow> io_error + object_counts" where
  "admit_session_outbound limit c =
     result_then (result_map_err (\<lambda>_. invalid_data ''NAR outbound session object limit exceeded'')
       (charge_object_count (outbound_objects c) limit)) (\<lambda>n.
     Inr (c\<lparr>outbound_objects := n\<rparr>))"

record object_admission =
  active_objects :: object_counts
  active_inbound_limit :: nat
  active_outbound_limit :: nat

definition new_object_admission :: "transfer_limits \<Rightarrow> object_admission" where
  "new_object_admission limits =
     \<lparr>active_objects = \<lparr>inbound_objects = 0, outbound_objects = 0\<rparr>,
      active_inbound_limit = maximum_active_inbound_objects limits,
      active_outbound_limit = maximum_active_outbound_objects limits\<rparr>"

definition active_count :: "bool \<Rightarrow> object_admission \<Rightarrow> nat" where
  "active_count inbound s = (if inbound then inbound_objects (active_objects s) else outbound_objects (active_objects s))"

definition set_active_count :: "bool \<Rightarrow> nat \<Rightarrow> object_admission \<Rightarrow> object_admission" where
  "set_active_count inbound n s =
     s\<lparr>active_objects := (if inbound then (active_objects s)\<lparr>inbound_objects := n\<rparr>
        else (active_objects s)\<lparr>outbound_objects := n\<rparr>)\<rparr>"

definition active_limit :: "bool \<Rightarrow> object_admission \<Rightarrow> nat" where
  "active_limit inbound s = (if inbound then active_inbound_limit s else active_outbound_limit s)"

text \<open>A permit is the direction it was admitted for.\<close>

definition admit_object :: "bool \<Rightarrow> object_admission \<Rightarrow> io_error + (bool \<times> object_admission)" where
  "admit_object inbound s =
     (case checked_add (active_count inbound s) 1 of
        None \<Rightarrow> Inl (invalid_data ''active object count exceeded'')
      | Some next_count \<Rightarrow>
          if active_limit inbound s < next_count then Inl (invalid_data ''active object count exceeded'')
          else Inr (inbound, set_active_count inbound next_count s))"

definition drop_permit :: "bool \<Rightarrow> object_admission \<Rightarrow> object_admission" where
  "drop_permit inbound s = set_active_count inbound (active_count inbound s - 1) s"

section \<open>Budget, reader and writer\<close>

record transfer_budget =
  budget_limit :: nat
  budget_charged :: nat

definition new_transfer_budget :: "nat \<Rightarrow> transfer_budget option" where
  "new_transfer_budget limit = (if limit > 0 then Some \<lparr>budget_limit = limit, budget_charged = 0\<rparr> else None)"

definition charge_transfer :: "nat \<Rightarrow> transfer_budget \<Rightarrow> io_error + transfer_budget" where
  "charge_transfer amount b =
     (case checked_add (budget_charged b) amount of
        None \<Rightarrow> Inl (invalid_data ''transfer session byte limit exceeded'')
      | Some next_charged \<Rightarrow>
          if budget_limit b < next_charged then Inl (invalid_data ''transfer session byte limit exceeded'')
          else Inr (b\<lparr>budget_charged := next_charged\<rparr>))"

definition budget_remaining :: "transfer_budget \<Rightarrow> nat" where
  "budget_remaining b = budget_limit b - budget_charged b"

text \<open>
  The wrapped source or sink is \<^verbatim>\<open>wrapped\<close>; its \<^verbatim>\<open>read\<close> is a function from a buffer length and a state to the
  bytes read or an error, its \<^verbatim>\<open>write\<close> one from a buffer and a state to the number of bytes taken or an error.
\<close>

record 's limited =
  wrapped :: 's
  object_limit :: nat
  object_charged :: nat
  session_budget :: transfer_budget
  rate_state :: "rate_buckets option"

type_synonym 's source_read = "nat \<Rightarrow> 's \<Rightarrow> (io_error + bytes) \<times> 's"
type_synonym 's sink_write = "bytes \<Rightarrow> 's \<Rightarrow> (io_error + nat) \<times> 's"

definition new_limited :: "'s \<Rightarrow> nat \<Rightarrow> transfer_budget \<Rightarrow> 's limited" where
  "new_limited w limit budget =
     \<lparr>wrapped = w, object_limit = limit, object_charged = 0, session_budget = budget, rate_state = None\<rparr>"

definition limited_with_rate :: "'s \<Rightarrow> nat \<Rightarrow> transfer_budget \<Rightarrow> rate_buckets \<Rightarrow> 's limited" where
  "limited_with_rate w limit budget rates =
     \<lparr>wrapped = w, object_limit = limit, object_charged = 0, session_budget = budget, rate_state = Some rates\<rparr>"

definition probe_source :: "'s source_read \<Rightarrow> string \<Rightarrow> 's limited \<Rightarrow> (io_error + bytes) \<times> 's limited" where
  "probe_source source_read message s =
     (case source_read 1 (wrapped s) of
        (Inl e, w) \<Rightarrow> (Inl e, s\<lparr>wrapped := w\<rparr>)
      | (Inr bs, w) \<Rightarrow> (if bs \<noteq> [] then Inl (invalid_data message) else Inr [], s\<lparr>wrapped := w\<rparr>))"

definition commit_reservation :: "nat \<Rightarrow> rate_reservation option \<Rightarrow> io_error + rate_reservation option" where
  "commit_reservation amount r =
     (case r of None \<Rightarrow> Inr None | Some r \<Rightarrow> result_then (commit amount r) (\<lambda>r'. Inr (Some r')))"

definition release_reservation :: "rate_reservation option \<Rightarrow> 's limited \<Rightarrow> 's limited" where
  "release_reservation r s =
     (case r of None \<Rightarrow> s | Some r \<Rightarrow> s\<lparr>rate_state := map_option (drop_reservation r) (rate_state s)\<rparr>)"

text \<open>The accounting both directions share, in the order of the code; an error returns the reservation.\<close>

definition account_transfer ::
  "nat \<Rightarrow> rate_reservation option \<Rightarrow> 's limited \<Rightarrow> (io_error + unit) \<times> 's limited" where
  "account_transfer amount r s =
     (case charge_transfer amount (session_budget s) of
        Inl e \<Rightarrow> (Inl e, release_reservation r s)
      | Inr budget \<Rightarrow>
          let s1 = s\<lparr>session_budget := budget\<rparr> in
          case checked_add (object_charged s1) amount of
            None \<Rightarrow> (Inl (invalid_data ''NAR object byte limit exceeded''), release_reservation r s1)
          | Some charged \<Rightarrow>
              let s2 = s1\<lparr>object_charged := charged\<rparr> in
              case commit_reservation amount r of
                Inl e \<Rightarrow> (Inl e, release_reservation r s2)
              | Inr r' \<Rightarrow> (Inr (), release_reservation r' s2))"

definition read_reserved ::
  "'s source_read \<Rightarrow> nat \<Rightarrow> rate_reservation option \<Rightarrow> 's limited \<Rightarrow> (io_error + bytes) \<times> 's limited" where
  "read_reserved source_read requested r s =
     (case source_read requested (wrapped s) of
        (Inl e, w) \<Rightarrow> (Inl e, release_reservation r (s\<lparr>wrapped := w\<rparr>))
      | (Inr bs, w) \<Rightarrow>
          let s1 = s\<lparr>wrapped := w\<rparr> in
          if bs = [] then (Inr [], release_reservation r s1)
          else
            case account_transfer (length bs) r s1 of
              (Inl e, s2) \<Rightarrow> (Inl e, s2)
            | (Inr _, s2) \<Rightarrow> (Inr bs, s2))"

definition limited_read :: "'s source_read \<Rightarrow> nat \<Rightarrow> nat \<Rightarrow> 's limited \<Rightarrow> (io_error + bytes) \<times> 's limited" where
  "limited_read source_read now buffer_length s =
     (if buffer_length = 0 then (Inr [], s)
      else
        let object_remaining = object_limit s - object_charged s in
        if object_remaining = 0 then probe_source source_read ''NAR object byte limit exceeded'' s
        else
          let session_remaining = budget_remaining (session_budget s) in
          if session_remaining = 0 then probe_source source_read ''transfer session byte limit exceeded'' s
          else
            let requested = min buffer_length (min object_remaining session_remaining) in
            case rate_state s of
              None \<Rightarrow> read_reserved source_read requested None s
            | Some buckets \<Rightarrow>
                (case reserve now requested True buckets of
                   (None, buckets') \<Rightarrow>
                     probe_source source_read ''NAR inbound rate limit exceeded'' (s\<lparr>rate_state := Some buckets'\<rparr>)
                 | (Some r, buckets') \<Rightarrow>
                     read_reserved source_read (reservation_reserved r) (Some r) (s\<lparr>rate_state := Some buckets'\<rparr>)))"

definition write_reserved ::
  "'s sink_write \<Rightarrow> bytes \<Rightarrow> nat \<Rightarrow> bool \<Rightarrow> nat \<Rightarrow> nat \<Rightarrow> rate_reservation option \<Rightarrow> 's limited
     \<Rightarrow> (io_error + nat) \<times> 's limited" where
  "write_reserved sink_write buffer allowed rate_limited object_remaining session_remaining r s =
     (case sink_write (take allowed buffer) (wrapped s) of
        (Inl e, w) \<Rightarrow> (Inl e, release_reservation r (s\<lparr>wrapped := w\<rparr>))
      | (Inr written, w) \<Rightarrow>
          (case account_transfer written r (s\<lparr>wrapped := w\<rparr>) of
             (Inl e, s2) \<Rightarrow> (Inl e, s2)
           | (Inr _, s2) \<Rightarrow>
               (if allowed < length buffer \<and> written = allowed then
                  Inl (invalid_data
                    (if rate_limited then ''NAR outbound rate limit exceeded''
                     else if session_remaining \<le> object_remaining then ''transfer session byte limit exceeded''
                     else ''NAR object byte limit exceeded''))
                else Inr written, s2)))"

definition limited_write :: "'s sink_write \<Rightarrow> nat \<Rightarrow> bytes \<Rightarrow> 's limited \<Rightarrow> (io_error + nat) \<times> 's limited" where
  "limited_write sink_write now buffer s =
     (if buffer = [] then (Inr 0, s)
      else
        let object_remaining = object_limit s - object_charged s;
            session_remaining = budget_remaining (session_budget s);
            allowed = min (length buffer) (min object_remaining session_remaining) in
        if session_remaining = 0 then (Inl (invalid_data ''transfer session byte limit exceeded''), s)
        else if allowed = 0 then (Inl (invalid_data ''NAR object byte limit exceeded''), s)
        else
          case rate_state s of
            None \<Rightarrow> write_reserved sink_write buffer allowed False object_remaining session_remaining None s
          | Some buckets \<Rightarrow>
              (case reserve now allowed False buckets of
                 (None, buckets') \<Rightarrow>
                   (Inl (invalid_data ''NAR outbound rate limit exceeded''), s\<lparr>rate_state := Some buckets'\<rparr>)
               | (Some r, buckets') \<Rightarrow>
                   write_reserved sink_write buffer (reservation_reserved r) (reservation_reserved r < allowed)
                     object_remaining session_remaining (Some r) (s\<lparr>rate_state := Some buckets'\<rparr>)))"

text \<open>Several reads of one object, each with its clock reading and buffer length, up to the first error.\<close>

fun limited_reads ::
  "'s source_read \<Rightarrow> (nat \<times> nat) list \<Rightarrow> 's limited \<Rightarrow> bytes list \<times> io_error option \<times> 's limited" where
  "limited_reads source_read [] s = ([], None, s)"
| "limited_reads source_read ((now, n) # calls) s =
     (case limited_read source_read now n s of
        (Inl e, s1) \<Rightarrow> ([], Some e, s1)
      | (Inr bs, s1) \<Rightarrow>
          (case limited_reads source_read calls s1 of (outs, e, s2) \<Rightarrow> (bs # outs, e, s2)))"

text \<open>\<^verbatim>\<open>Read for &[u8]\<close> and \<^verbatim>\<open>Write for Vec<u8>\<close>.\<close>

definition slice_read :: "bytes source_read" where
  "slice_read n bs = (Inr (take n bs), drop n bs)"

definition vec_write :: "bytes sink_write" where
  "vec_write bs written = (Inr (length bs), written @ bs)"

section \<open>Interleavings\<close>



definition remove_nth :: "nat \<Rightarrow> 'a list \<Rightarrow> 'a list" where
  "remove_nth i xs = take i xs @ drop (Suc i) xs"



record permit_world =
  permit_state :: object_admission
  live_permits :: "bool list"

inductive permit_step :: "permit_world \<Rightarrow> permit_world \<Rightarrow> bool" where
  permit_admit: "admit_object inbound (permit_state w) = Inr (p, s) \<Longrightarrow>
    permit_step w \<lparr>permit_state = s, live_permits = p # live_permits w\<rparr>"
| permit_drop: "i < length (live_permits w) \<Longrightarrow>
    permit_step w \<lparr>permit_state = drop_permit (live_permits w ! i) (permit_state w),
      live_permits = remove_nth i (live_permits w)\<rparr>"

inductive permit_reachable :: "transfer_limits \<Rightarrow> permit_world \<Rightarrow> bool" for limits where
  permit_start: "permit_reachable limits \<lparr>permit_state = new_object_admission limits, live_permits = []\<rparr>"
| permit_more: "\<lbrakk>permit_reachable limits w; permit_step w v\<rbrakk> \<Longrightarrow> permit_reachable limits v"

section \<open>Configured limits\<close>

lemma positive_show_nat: "\<lbrakk>0 < n; n < 2 ^ 64\<rbrakk> \<Longrightarrow> positive (show_nat n) = Inr n"
  by (simp add: positive_def parse_u64_show_nat)

lemma positive_range: "positive t = Inr n \<Longrightarrow> 0 < n \<and> n < 2 ^ 64"
  by (auto simp: positive_def split: option.splits if_splits dest: parse_u64_bound)

definition limit_fields :: "transfer_limits \<Rightarrow> nat list" where
  "limit_fields l = [maximum_object_bytes l, maximum_inbound_session_bytes l, maximum_outbound_session_bytes l,
     maximum_inbound_session_objects l, maximum_outbound_session_objects l, maximum_active_inbound_objects l,
     maximum_active_outbound_objects l, inbound_rate_bytes_per_second l, inbound_burst_bytes l,
     outbound_rate_bytes_per_second l, outbound_burst_bytes l]"

definition limit_range :: "nat \<Rightarrow> bool" where
  "limit_range n \<longleftrightarrow> 0 < n \<and> n < 2 ^ 64"

lemma positive_limit_range: "positive t = Inr n \<Longrightarrow> limit_range n"
  using positive_range by (simp add: limit_range_def)

lemma positive_show_limit: "limit_range n \<Longrightarrow> positive (show_nat n) = Inr n"
  by (simp add: limit_range_def positive_show_nat)

lemma default_limit_range:
  "limit_range DEFAULT_MAXIMUM_NAR_OBJECT_BYTES" "limit_range DEFAULT_MAXIMUM_INBOUND_NAR_SESSION_BYTES"
  "limit_range DEFAULT_MAXIMUM_OUTBOUND_NAR_SESSION_BYTES" "limit_range DEFAULT_MAXIMUM_NAR_SESSION_OBJECTS"
  "limit_range DEFAULT_MAXIMUM_ACTIVE_NAR_OBJECTS" "limit_range DEFAULT_NAR_RATE_BYTES_PER_SECOND"
  "limit_range DEFAULT_NAR_BURST_BYTES"
  by (simp_all add: limit_range_def transfer_default_defs)

lemma parse_transfer_limits_range:
  assumes "parse_transfer_limits t1 t2 t3 t4 t5 t6 t7 = Inr l"
  shows "list_all limit_range (limit_fields l)"
  using assms
  by (clarsimp simp: parse_transfer_limits_def limit_fields_def default_transfer_limits_def default_limit_range
      positive_limit_range)

lemma parse_rates_range:
  assumes "parse_rates t1 t2 t3 t4 = Inr (ir, ib, r, ob)"
  shows "list_all limit_range [ir, ib, r, ob]"
  using assms by (clarsimp simp: parse_rates_def positive_limit_range)

text \<open>
  C38: Limits read from the environment are always positive 64-bit numbers, so that no limit is zero and every
  budget can be created; and with no variable set they are the built-in defaults.
\<close>
theorem transfer_limits_configured:
  "(transfer_limits_from_environment env = Inr l \<longrightarrow> list_all limit_range (limit_fields l))
   \<and> transfer_limits_from_environment (\<lambda>_. None) = Inr default_transfer_limits"
proof
  show "transfer_limits_from_environment env = Inr l \<longrightarrow> list_all limit_range (limit_fields l)"
  proof
    assume "transfer_limits_from_environment env = Inr l"
    then obtain k q t1 t2 t3 t4 t5 t6 t7 r1 r2 r3 r4 where k: "parse_transfer_limits t1 t2 t3 t4 t5 t6 t7 = Inr k"
      "parse_rates r1 r2 r3 r4 = Inr q"
      "(case q of (ir, ib, r, ob) \<Rightarrow> Inr (k\<lparr>inbound_rate_bytes_per_second := ir, inbound_burst_bytes := ib,
        outbound_rate_bytes_per_second := r, outbound_burst_bytes := ob\<rparr>)) = (Inr l :: io_error + transfer_limits)"
      unfolding transfer_limits_from_environment_def Let_def result_then_Inr by (elim exE conjE) (rule that)
    obtain ir ib r ob where q: "q = (ir, ib, r, ob)" by (cases q)
    have "list_all limit_range (limit_fields k)" "list_all limit_range [ir, ib, r, ob]"
      "l = k\<lparr>inbound_rate_bytes_per_second := ir, inbound_burst_bytes := ib,
        outbound_rate_bytes_per_second := r, outbound_burst_bytes := ob\<rparr>"
      using parse_transfer_limits_range [OF k(1)] parse_rates_range k(2,3) q by auto
    then show "list_all limit_range (limit_fields l)" by (simp add: limit_fields_def)
  qed
  have "parse_transfer_limits (show_nat DEFAULT_MAXIMUM_NAR_OBJECT_BYTES) (show_nat DEFAULT_MAXIMUM_INBOUND_NAR_SESSION_BYTES)
      (show_nat DEFAULT_MAXIMUM_OUTBOUND_NAR_SESSION_BYTES) (show_nat DEFAULT_MAXIMUM_NAR_SESSION_OBJECTS)
      (show_nat DEFAULT_MAXIMUM_NAR_SESSION_OBJECTS) (show_nat DEFAULT_MAXIMUM_ACTIVE_NAR_OBJECTS)
      (show_nat DEFAULT_MAXIMUM_ACTIVE_NAR_OBJECTS) = Inr default_transfer_limits"
    by (simp add: parse_transfer_limits_def positive_show_limit default_limit_range default_transfer_limits_def)
  moreover have "parse_rates (show_nat DEFAULT_NAR_RATE_BYTES_PER_SECOND) (show_nat DEFAULT_NAR_BURST_BYTES)
      (show_nat DEFAULT_NAR_RATE_BYTES_PER_SECOND) (show_nat DEFAULT_NAR_BURST_BYTES)
      = Inr (DEFAULT_NAR_RATE_BYTES_PER_SECOND, DEFAULT_NAR_BURST_BYTES, DEFAULT_NAR_RATE_BYTES_PER_SECOND, DEFAULT_NAR_BURST_BYTES)"
    by (simp add: parse_rates_def positive_show_limit default_limit_range)
  ultimately show "transfer_limits_from_environment (\<lambda>_. None) = Inr default_transfer_limits"
    by (simp add: transfer_limits_from_environment_def env_or_def default_transfer_limits_def)
qed

theorem transfer_limits_configured_witness:
  "transfer_limits_from_environment (\<lambda>_. None) = Inr default_transfer_limits
   \<and> list_all limit_range (limit_fields default_transfer_limits)"
  using transfer_limits_configured [of "\<lambda>_. None" default_transfer_limits] by blast

section \<open>Rates\<close>

definition bucket_ok :: "token_bucket \<Rightarrow> bool" where
  "bucket_ok b \<longleftrightarrow> bucket_available b \<le> bucket_burst b \<and> bucket_burst b < 2 ^ 64 \<and> bucket_fraction b < 1000000000"

definition bucket_credit :: "token_bucket \<Rightarrow> nat" where
  "bucket_credit b = 1000000000 * bucket_available b + bucket_fraction b"

lemma refill_keeps [simp]:
  "bucket_rate (refill e b) = bucket_rate b" "bucket_burst (refill e b) = bucket_burst b"
  by (simp_all add: refill_def Let_def)

lemma refill_ok:
  assumes "bucket_ok b"
  shows "bucket_ok (refill e b)"
  using assms by (auto simp: refill_def bucket_ok_def Let_def)

lemma refill_credit:
  assumes "bucket_ok b"
  shows "bucket_credit (refill e b) \<le> bucket_credit b + e * bucket_rate b"
proof (cases "bucket_available b = bucket_burst b")
  case True
  then show ?thesis by (simp add: refill_def bucket_credit_def)
next
  case False
  let ?c = "e * bucket_rate b + bucket_fraction b"
  have small: "1000000000 * bucket_burst b < 2 ^ 128" using assms by (simp add: bucket_ok_def)
  show ?thesis
  proof (cases "e * bucket_rate b < 2 ^ 128 \<and> ?c < 2 ^ 128")
    case True
    have "1000000000 * (?c div 1000000000) + ?c mod 1000000000 = ?c" by simp
    moreover have "min (min (bucket_available b + ?c div 1000000000) (2 ^ 128 - 1)) (bucket_burst b)
        \<le> bucket_available b + ?c div 1000000000" by simp
    ultimately have m: "1000000000 * min (min (bucket_available b + ?c div 1000000000) (2 ^ 128 - 1)) (bucket_burst b)
        + ?c mod 1000000000 \<le> 1000000000 * bucket_available b + ?c"
      by linarith
    show ?thesis
    proof (cases "min (min (bucket_available b + ?c div 1000000000) (2 ^ 128 - 1)) (bucket_burst b) = bucket_burst b")
      case full: True
      then have "refill e b = b\<lparr>bucket_available := bucket_burst b, bucket_fraction := 0\<rparr>"
        using True False by (simp add: refill_def Let_def)
      then show ?thesis using m unfolding full bucket_credit_def by simp
    next
      case part: False
      then have "bucket_available (refill e b) = min (min (bucket_available b + ?c div 1000000000) (2 ^ 128 - 1)) (bucket_burst b)
          \<and> bucket_fraction (refill e b) = ?c mod 1000000000"
        using True False unfolding refill_def Let_def by simp
      then have "bucket_credit (refill e b) = 1000000000 *
          min (min (bucket_available b + ?c div 1000000000) (2 ^ 128 - 1)) (bucket_burst b) + ?c mod 1000000000"
        by (simp only: bucket_credit_def)
      also note m
      finally show ?thesis by (simp only: bucket_credit_def ac_simps)
    qed
  next
    case over: False
    then have "2 ^ 128 \<le> ?c" by linarith
    with small have "1000000000 * bucket_burst b \<le> ?c" by linarith
    with over False show ?thesis by (auto simp: refill_def bucket_credit_def)
  qed
qed

definition outstanding :: "bool \<Rightarrow> rate_reservation list \<Rightarrow> nat" where
  "outstanding d rs = (\<Sum>r\<leftarrow>rs. if reservation_inbound r = d then reservation_reserved r - reservation_committed r else 0)"

lemma outstanding_simps [simp]:
  "outstanding d [] = 0"
  "outstanding d (r # rs) =
     (if reservation_inbound r = d then reservation_reserved r - reservation_committed r else 0) + outstanding d rs"
  "outstanding d (rs @ qs) = outstanding d rs + outstanding d qs"
  by (simp_all add: outstanding_def)


lemma split_nth: "i < length xs \<Longrightarrow> xs = take i xs @ xs ! i # drop (Suc i) xs"
  by (rule id_take_nth_drop)



lemma bucket_of_set_bucket [simp]:
  "bucket_of d (set_bucket e b bs) = (if d = e then b else bucket_of d bs)"
  "last_observation (set_bucket e b bs) = last_observation bs"
  by (auto simp: bucket_of_def set_bucket_def)

lemma bucket_of_observe [simp]:
  "bucket_of d (observe now bs) = refill (now - last_observation bs) (bucket_of d bs)"
  "last_observation (observe now bs) = max (last_observation bs) now"
  by (auto simp: bucket_of_def observe_def Let_def)

definition buckets_ok :: "rate_buckets \<Rightarrow> bool" where
  "buckets_ok bs \<longleftrightarrow> (\<forall>d. bucket_ok (bucket_of d bs))"

lemma buckets_okD: "buckets_ok bs \<Longrightarrow> bucket_ok (bucket_of d bs)"
  by (simp add: buckets_ok_def)

lemma buckets_ok_set:
  "\<lbrakk>buckets_ok bs; bucket_ok b\<rbrakk> \<Longrightarrow> buckets_ok (set_bucket d b bs)"
  by (simp add: buckets_ok_def)

lemma buckets_ok_observe: "buckets_ok bs \<Longrightarrow> buckets_ok (observe now bs)"
  by (simp add: buckets_ok_def refill_ok)



definition rates_kept :: "rate_buckets \<Rightarrow> rate_buckets \<Rightarrow> bool" where
  "rates_kept bs bs' \<longleftrightarrow> last_observation bs \<le> last_observation bs' \<and>
     (\<forall>d. bucket_rate (bucket_of d bs') = bucket_rate (bucket_of d bs) \<and>
          bucket_burst (bucket_of d bs') = bucket_burst (bucket_of d bs))"

lemma rates_kept_set:
  "\<lbrakk>rates_kept bs bs'; bucket_rate b = bucket_rate (bucket_of d bs'); bucket_burst b = bucket_burst (bucket_of d bs')\<rbrakk>
    \<Longrightarrow> rates_kept bs (set_bucket d b bs')"
  by (auto simp: rates_kept_def)

lemma rates_kept_observe: "rates_kept bs (observe now bs)"
  by (simp add: rates_kept_def)

lemma bucket_take:
  assumes "bucket_ok b" "n \<le> bucket_available b"
  shows "bucket_ok (b\<lparr>bucket_available := bucket_available b - n\<rparr>)"
    and "bucket_credit (b\<lparr>bucket_available := bucket_available b - n\<rparr>) + 1000000000 * n = bucket_credit b"
  using assms by (auto simp: bucket_ok_def bucket_credit_def)

lemma bucket_give:
  assumes "bucket_ok b"
  shows "bucket_ok (b\<lparr>bucket_available := min (saturating_add (bucket_available b) n) (bucket_burst b)\<rparr>)"
    and "bucket_credit (b\<lparr>bucket_available := min (saturating_add (bucket_available b) n) (bucket_burst b)\<rparr>)
      \<le> bucket_credit b + 1000000000 * n"
proof -
  have "min (saturating_add (bucket_available b) n) (bucket_burst b) \<le> bucket_available b + n"
    by (simp add: saturating_add_def)
  then show "bucket_credit (b\<lparr>bucket_available := min (saturating_add (bucket_available b) n) (bucket_burst b)\<rparr>)
      \<le> bucket_credit b + 1000000000 * n"
    unfolding bucket_credit_def by simp
qed (use assms in \<open>simp add: bucket_ok_def\<close>)

lemma reserve_cases:
  assumes "reserve now requested inbound bs = (r, bs')" "buckets_ok bs"
  obtains (nothing) "r = None" "bs' = bs"
  | (empty) "r = None" "bs' = observe now bs"
  | (granted) n where "0 < n" "n \<le> requested" "n \<le> bucket_available (bucket_of inbound (observe now bs))"
      "r = Some \<lparr>reservation_inbound = inbound, reservation_reserved = n, reservation_committed = 0\<rparr>"
      "bs' = set_bucket inbound ((bucket_of inbound (observe now bs))
        \<lparr>bucket_available := bucket_available (bucket_of inbound (observe now bs)) - n\<rparr>) (observe now bs)"
proof (cases "requested = 0")
  case True
  then have "r = None" "bs' = bs" using assms(1) by (auto simp: reserve_def)
  then show ?thesis by (rule nothing)
next
  case False
  let ?n = "min requested (bucket_available (bucket_of inbound (observe now bs)))"
  show ?thesis
  proof (cases "?n = 0")
    case True
    then have "r = None" "bs' = observe now bs"
      using assms(1) False by (auto simp: reserve_def Let_def simp del: bucket_of_observe)
    then show ?thesis by (rule empty)
  next
    case pos: False
    show ?thesis
      by (rule granted [of ?n]) (use assms(1) False pos in \<open>auto simp: reserve_def Let_def simp del: bucket_of_observe\<close>)
  qed
qed

lemma observe_credit:
  assumes "buckets_ok bs"
  shows "bucket_credit (bucket_of d (observe now bs))
    \<le> bucket_credit (bucket_of d bs) + (last_observation (observe now bs) - last_observation bs) * bucket_rate (bucket_of d bs)"
proof -
  have "max (last_observation bs) now - last_observation bs = now - last_observation bs" by simp
  with refill_credit [OF buckets_okD [OF assms]] show ?thesis by simp
qed

lemma reserve_shape:
  assumes "reserve now requested inbound bs = (r, bs')" "buckets_ok bs"
  shows "buckets_ok bs'" "rates_kept bs bs'"
    and "bucket_credit (bucket_of d bs') + 1000000000 * (case r of None \<Rightarrow> 0 | Some q \<Rightarrow> outstanding d [q])
      \<le> bucket_credit (bucket_of d bs) + (last_observation bs' - last_observation bs) * bucket_rate (bucket_of d bs)"
proof -
  note ok = buckets_ok_observe [OF assms(2), of now]
  note keep = rates_kept_observe [of bs now]
  note credit = observe_credit [OF assms(2), of d now]
  have "buckets_ok bs' \<and> rates_kept bs bs' \<and>
     bucket_credit (bucket_of d bs') + 1000000000 * (case r of None \<Rightarrow> 0 | Some q \<Rightarrow> outstanding d [q])
      \<le> bucket_credit (bucket_of d bs) + (last_observation bs' - last_observation bs) * bucket_rate (bucket_of d bs)"
  proof (cases rule: reserve_cases [OF assms])
    case 1
    then show ?thesis using assms(2) by (simp add: rates_kept_def)
  next
    case 2
    then show ?thesis using ok keep credit by simp
  next
    case (3 n)
    note t = bucket_take [OF buckets_okD [OF ok] 3(3)]
    show ?thesis unfolding 3(4,5)
      using t credit buckets_ok_set [OF ok t(1)] rates_kept_set [OF keep]
      by (auto simp del: bucket_of_observe)
  qed
  then show "buckets_ok bs'" "rates_kept bs bs'"
    "bucket_credit (bucket_of d bs') + 1000000000 * (case r of None \<Rightarrow> 0 | Some q \<Rightarrow> outstanding d [q])
      \<le> bucket_credit (bucket_of d bs) + (last_observation bs' - last_observation bs) * bucket_rate (bucket_of d bs)"
    by blast+
qed

lemma drop_shape:
  assumes "buckets_ok bs"
  shows "buckets_ok (drop_reservation r bs)" "rates_kept bs (drop_reservation r bs)"
    "last_observation (drop_reservation r bs) = last_observation bs"
    "bucket_credit (bucket_of d (drop_reservation r bs)) \<le> bucket_credit (bucket_of d bs) + 1000000000 * outstanding d [r]"
proof -
  have keep: "rates_kept bs bs" by (simp add: rates_kept_def)
  note g = bucket_give [OF buckets_okD [OF assms], of "reservation_inbound r" "reservation_reserved r - reservation_committed r"]
  show "buckets_ok (drop_reservation r bs)"
    using assms g(1) by (simp add: drop_reservation_def Let_def buckets_ok_set)
  show "rates_kept bs (drop_reservation r bs)"
    using keep by (simp add: drop_reservation_def Let_def rates_kept_set)
  show "last_observation (drop_reservation r bs) = last_observation bs"
    by (simp add: drop_reservation_def Let_def)
  show "bucket_credit (bucket_of d (drop_reservation r bs)) \<le> bucket_credit (bucket_of d bs) + 1000000000 * outstanding d [r]"
    using g(2) by (auto simp: drop_reservation_def Let_def)
qed














section \<open>Active objects\<close>

lemma count_remove_nth:
  assumes "i < length xs"
  shows "count_list xs d = count_list (remove_nth i xs) d + (if xs ! i = d then 1 else 0)"
  by (subst split_nth [OF assms]) (simp add: remove_nth_def)

definition permits_ok :: "transfer_limits \<Rightarrow> bool \<Rightarrow> permit_world \<Rightarrow> bool" where
  "permits_ok limits d w \<longleftrightarrow>
     active_count d (permit_state w) = count_list (live_permits w) d \<and>
     count_list (live_permits w) d \<le> active_limit d (permit_state w) \<and>
     active_limit d (permit_state w) =
       (if d then maximum_active_inbound_objects limits else maximum_active_outbound_objects limits)"

lemma active_set_simps [simp]:
  "active_count d (set_active_count e n s) = (if d = e then n else active_count d s)"
  "active_limit d (set_active_count e n s) = active_limit d s"
  by (auto simp: active_count_def active_limit_def set_active_count_def)

lemma admit_object_iff:
  "admit_object d s = Inr (p, s') \<longleftrightarrow> p = d \<and> s' = set_active_count d (active_count d s + 1) s \<and>
     active_count d s + 1 < usize_limit \<and> active_count d s + 1 \<le> active_limit d s"
  by (auto simp: admit_object_def checked_add_def)

lemma permit_step_ok:
  assumes "permit_step w v" "permits_ok limits d w"
  shows "permits_ok limits d v"
  using assms(1)
proof (cases rule: permit_step.cases)
  case (permit_admit inbound p s)
  show ?thesis using permit_admit(2) assms(2) unfolding permit_admit(1) permits_ok_def
    by (auto simp: admit_object_iff)
next
  case (permit_drop i)
  show ?thesis using assms(2) count_remove_nth [OF permit_drop(2), of d] unfolding permit_drop(1) permits_ok_def
    by (auto simp: drop_permit_def)
qed

lemma permit_reachable_ok: "permit_reachable limits w \<Longrightarrow> permits_ok limits d w"
proof (induction rule: permit_reachable.induct)
  case permit_start
  then show ?case by (simp add: permits_ok_def new_object_admission_def active_count_def active_limit_def)
next
  case (permit_more w v)
  then show ?case by (blast intro: permit_step_ok)
qed

text \<open>
  C37: However objects are admitted and their permits dropped, the number of active objects of a direction is
  the number of permits held for it and never exceeds its limit; and an object is admitted exactly when the
  permits held leave room, so a dropped permit frees a place.
\<close>
theorem active_objects_exact:
  assumes "permit_reachable limits w"
    and "limit = (if inbound then maximum_active_inbound_objects limits else maximum_active_outbound_objects limits)"
    and "limit < 2 ^ 64"
  shows "active_count inbound (permit_state w) = count_list (live_permits w) inbound
    \<and> count_list (live_permits w) inbound \<le> limit
    \<and> ((\<exists>s. admit_object inbound (permit_state w) = Inr (inbound, s)) \<longleftrightarrow> count_list (live_permits w) inbound < limit)"
  using permit_reachable_ok [OF assms(1), of inbound] assms(2,3)
  by (auto simp: permits_ok_def admit_object_iff usize_limit_def)

definition example_permit_world :: permit_world where
  "example_permit_world = \<lparr>permit_state = set_active_count True 1 (new_object_admission default_transfer_limits),
     live_permits = [True]\<rparr>"

theorem active_objects_exact_witness:
  "active_count True (permit_state example_permit_world) = count_list (live_permits example_permit_world) True
   \<and> count_list (live_permits example_permit_world) True \<le> 256
   \<and> (\<exists>s. admit_object True (permit_state example_permit_world) = Inr (True, s))"
proof -
  let ?w = "\<lparr>permit_state = new_object_admission default_transfer_limits, live_permits = []\<rparr>"
  have "admit_object True (permit_state ?w) = Inr (True, permit_state example_permit_world)"
    by (simp add: admit_object_iff example_permit_world_def new_object_admission_def active_count_def active_limit_def
        default_transfer_limits_def transfer_default_defs usize_limit_def)
  from permit_admit [OF this] have "permit_step ?w example_permit_world" by (simp add: example_permit_world_def)
  then have "permit_reachable default_transfer_limits example_permit_world"
    by (rule permit_more [OF permit_start])
  moreover have "256 = (if True then maximum_active_inbound_objects default_transfer_limits
      else maximum_active_outbound_objects default_transfer_limits)"
    by (simp add: default_transfer_limits_def transfer_default_defs)
  ultimately show ?thesis
    using active_objects_exact [of default_transfer_limits example_permit_world 256 True]
    by (simp add: example_permit_world_def)
qed

section \<open>Limited transfers\<close>

definition limited_ok :: "'s limited \<Rightarrow> bool" where
  "limited_ok s \<longleftrightarrow> object_charged s \<le> object_limit s \<and> object_limit s < 2 ^ 64 \<and>
     budget_charged (session_budget s) \<le> budget_limit (session_budget s) \<and> budget_limit (session_budget s) < 2 ^ 64 \<and>
     (case rate_state s of None \<Rightarrow> True | Some bs \<Rightarrow> buckets_ok bs)"

text \<open>What a transfer of \<^verbatim>\<open>n\<close> bytes changes besides the wrapped stream and the buckets.\<close>

definition charged_by :: "nat \<Rightarrow> 's limited \<Rightarrow> 's limited \<Rightarrow> bool" where
  "charged_by n s s' \<longleftrightarrow> object_limit s' = object_limit s \<and> object_charged s' = object_charged s + n \<and>
     session_budget s' = (session_budget s)\<lparr>budget_charged := budget_charged (session_budget s) + n\<rparr>"

definition reservation_ok :: "rate_reservation option \<Rightarrow> nat \<Rightarrow> bool" where
  "reservation_ok r n \<longleftrightarrow> (case r of None \<Rightarrow> True | Some q \<Rightarrow> reservation_committed q = 0 \<and> n \<le> reservation_reserved q)"

lemma charged_by_refl [simp]: "charged_by 0 s s"
  by (simp add: charged_by_def)

lemma charged_by_trans: "\<lbrakk>charged_by m s t; charged_by n t u\<rbrakk> \<Longrightarrow> charged_by (m + n) s u"
  by (auto simp: charged_by_def)


lemma release_simps [simp]:
  "wrapped (release_reservation r s) = wrapped s"
  "charged_by n s' (release_reservation r s) = charged_by n s' s"
  by (auto simp: release_reservation_def charged_by_def split: option.splits)

lemma release_ok [simp]: "limited_ok s \<Longrightarrow> limited_ok (release_reservation r s)"
  by (auto simp: release_reservation_def limited_ok_def drop_shape split: option.splits)

lemma wrapped_update_simps [simp]:
  "limited_ok (s\<lparr>wrapped := w\<rparr>) = limited_ok s" "charged_by n s' (s\<lparr>wrapped := w\<rparr>) = charged_by n s' s"
  "charged_by n (s\<lparr>wrapped := w\<rparr>) s' = charged_by n s s'"
  by (simp_all add: limited_ok_def charged_by_def)

lemma rate_update_simps [simp]:
  "charged_by n s' (s\<lparr>rate_state := r\<rparr>) = charged_by n s' s" "charged_by n (s\<lparr>rate_state := r\<rparr>) s' = charged_by n s s'"
  by (simp_all add: charged_by_def)

lemma account_transfer_ok:
  assumes "limited_ok s" "n \<le> object_limit s - object_charged s" "n \<le> budget_remaining (session_budget s)"
    and "reservation_ok r n"
  obtains s' where "account_transfer n r s = (Inr (), s')" "limited_ok s'" "charged_by n s s'" "wrapped s' = wrapped s"
proof -
  let ?s = "s\<lparr>session_budget := (session_budget s)\<lparr>budget_charged := budget_charged (session_budget s) + n\<rparr>,
    object_charged := object_charged s + n\<rparr>"
  have n: "object_charged s + n \<le> object_limit s"
    "budget_charged (session_budget s) + n \<le> budget_limit (session_budget s)"
    using assms(1-3) by (auto simp: limited_ok_def budget_remaining_def)
  then have small: "checked_add (budget_charged (session_budget s)) n = Some (budget_charged (session_budget s) + n)"
    "checked_add (object_charged s) n = Some (object_charged s + n)"
    using assms(1) by (auto simp: limited_ok_def usize_limit_def)
  have charge: "charge_transfer n (session_budget s)
      = Inr ((session_budget s)\<lparr>budget_charged := budget_charged (session_budget s) + n\<rparr>)"
    using n by (simp add: charge_transfer_def small(1))
  obtain r' where r': "commit_reservation n r = Inr r'"
    using assms(4) by (auto simp: reservation_ok_def commit_reservation_def commit_def split: option.splits)
  have "account_transfer n r s = (Inr (), release_reservation r' ?s)"
    by (simp add: account_transfer_def Let_def charge small(2) r')
  moreover have "limited_ok ?s" using assms(1) n by (simp add: limited_ok_def)
  moreover have "charged_by n s ?s" by (simp add: charged_by_def)
  ultimately show ?thesis by (intro that [of "release_reservation r' ?s"]) simp_all
qed

lemma reserve_limited:
  assumes "reserve now n d bs = (r, bs')" "limited_ok s" "rate_state s = Some bs"
  shows "limited_ok (s\<lparr>rate_state := Some bs'\<rparr>)"
    and "r = Some q \<Longrightarrow> 0 < reservation_reserved q \<and> reservation_reserved q \<le> n \<and> reservation_committed q = 0"
proof -
  have ok: "buckets_ok bs" using assms(2,3) by (simp add: limited_ok_def)
  show "limited_ok (s\<lparr>rate_state := Some bs'\<rparr>)"
    using reserve_shape(1) [OF assms(1) ok] assms(2) by (simp add: limited_ok_def)
  show "r = Some q \<Longrightarrow> 0 < reservation_reserved q \<and> reservation_reserved q \<le> n \<and> reservation_committed q = 0"
    using reserve_cases [OF assms(1) ok] by fastforce
qed

subsection \<open>The reader\<close>

text \<open>The contract of \<^verbatim>\<open>Read::read\<close>: at most as many bytes as the buffer holds.\<close>

locale bounded_source =
  fixes source_read :: "'s source_read"
  assumes source_read_bound: "source_read n s = (Inr bs, s') \<Longrightarrow> length bs \<le> n"
begin

definition read_outcome :: "nat \<Rightarrow> 's limited \<Rightarrow> (io_error + bytes) \<times> 's limited \<Rightarrow> bool" where
  "read_outcome n s out \<longleftrightarrow> (case out of
     (Inr bs, s') \<Rightarrow> limited_ok s' \<and> charged_by (length bs) s s' \<and> length bs \<le> n \<and>
       (\<exists>k>0. k \<le> n \<and> source_read k (wrapped s) = (Inr bs, wrapped s'))
   | (Inl e, s') \<Rightarrow> limited_ok s' \<and> charged_by 0 s s' \<and>
       ((\<exists>k>0. k \<le> n \<and> source_read k (wrapped s) = (Inl e, wrapped s')) \<or>
        (\<exists>b. source_read 1 (wrapped s) = (Inr [b], wrapped s')) \<and>
         e \<in> {invalid_data ''NAR object byte limit exceeded'', invalid_data ''transfer session byte limit exceeded'',
               invalid_data ''NAR inbound rate limit exceeded''}))"

lemma probe_outcome:
  assumes "limited_ok s" "0 < n" "charged_by 0 s0 s" "wrapped s = wrapped s0"
    and "m \<in> {''NAR object byte limit exceeded'', ''transfer session byte limit exceeded'', ''NAR inbound rate limit exceeded''}"
  shows "read_outcome n s0 (probe_source source_read m s)"
proof -
  obtain res w where r: "source_read 1 (wrapped s0) = (res, w)" by fastforce
  show ?thesis
  proof (cases res)
    case (Inl e)
    then show ?thesis using assms r by (auto simp: probe_source_def read_outcome_def intro!: exI [of _ 1])
  next
    case (Inr bs)
    then have l: "length bs \<le> 1" using source_read_bound r by blast
    show ?thesis
    proof (cases bs)
      case Nil
      then show ?thesis using assms r Inr by (auto simp: probe_source_def read_outcome_def intro!: exI [of _ 1])
    next
      case (Cons b cs)
      with l have "bs = [b]" by simp
      then show ?thesis using assms r Inr by (auto simp: probe_source_def read_outcome_def)
    qed
  qed
qed

lemma read_reserved_outcome:
  assumes "limited_ok s" "0 < k" "k \<le> n" "charged_by 0 s0 s" "wrapped s = wrapped s0"
    and "k \<le> object_limit s - object_charged s" "k \<le> budget_remaining (session_budget s)" "reservation_ok r k"
  shows "read_outcome n s0 (read_reserved source_read k r s)"
proof -
  obtain res w where r: "source_read k (wrapped s0) = (res, w)" by fastforce
  show ?thesis
  proof (cases res)
    case (Inl e)
    then show ?thesis using assms r by (auto simp: read_reserved_def read_outcome_def)
  next
    case (Inr bs)
    then have l: "length bs \<le> k" using source_read_bound r by blast
    show ?thesis
    proof (cases "bs = []")
      case True
      then show ?thesis using assms r Inr by (auto simp: read_reserved_def read_outcome_def)
    next
      case False
      let ?s = "s\<lparr>wrapped := w\<rparr>"
      have "reservation_ok r (length bs)" using assms(8) l by (auto simp: reservation_ok_def split: option.splits)
      then obtain s' where s': "account_transfer (length bs) r ?s = (Inr (), s')" "limited_ok s'"
        "charged_by (length bs) ?s s'" "wrapped s' = wrapped ?s"
        using account_transfer_ok [of ?s "length bs" r] assms(1,6,7) l by (auto simp: budget_remaining_def)
      have "charged_by (length bs) s0 s'" using charged_by_trans [OF assms(4), of "length bs" s'] s'(3) by simp
      then show ?thesis using assms r Inr False s' l
        by (auto simp: read_reserved_def read_outcome_def intro!: exI [of _ k])
    qed
  qed
qed

lemma limited_read_outcome:
  assumes "limited_ok s" "0 < n"
  shows "read_outcome n s (limited_read source_read now n s)"
proof -
  define o_left where "o_left = object_limit s - object_charged s"
  define b_left where "b_left = budget_remaining (session_budget s)"
  define k where "k = min n (min o_left b_left)"
  have n: "(n = 0) = False" using assms(2) by simp
  note eqs = limited_read_def Let_def n if_False o_left_def [symmetric] b_left_def [symmetric]
  have probe: "m \<in> {''NAR object byte limit exceeded'', ''transfer session byte limit exceeded''}
      \<Longrightarrow> read_outcome n s (probe_source source_read m s)" for m
    by (rule probe_outcome) (use assms in auto)
  consider "o_left = 0" | "o_left \<noteq> 0" "b_left = 0" | "o_left \<noteq> 0" "b_left \<noteq> 0" by blast
  then show ?thesis
  proof cases
    case 1
    then show ?thesis unfolding eqs using probe by simp
  next
    case 2
    then show ?thesis unfolding eqs using probe by simp
  next
    case 3
    then have F: "(o_left = 0) = False" "(b_left = 0) = False" by simp_all
    have k: "0 < k" "k \<le> n" "k \<le> o_left" "k \<le> b_left" using 3 assms(2) by (simp_all add: k_def)
    show ?thesis
    proof (cases "rate_state s")
      case None
      have "read_outcome n s (read_reserved source_read k None s)"
        by (rule read_reserved_outcome)
          (use assms(1) k in \<open>simp_all add: reservation_ok_def flip: o_left_def b_left_def\<close>)
      then show ?thesis unfolding eqs F k_def [symmetric] None by simp
    next
      case (Some bs)
      obtain r bs' where r: "reserve now k True bs = (r, bs')" by fastforce
      let ?s = "s\<lparr>rate_state := Some bs'\<rparr>"
      note l = reserve_limited [OF r assms(1) Some]
      have "read_outcome n s (probe_source source_read ''NAR inbound rate limit exceeded'' ?s)"
        by (rule probe_outcome) (use l(1) assms(2) in auto)
      moreover have "read_outcome n s (read_reserved source_read (reservation_reserved q) (Some q) ?s)" if q: "r = Some q" for q
      proof (rule read_reserved_outcome)
        show "reservation_reserved q \<le> object_limit ?s - object_charged ?s"
          "reservation_reserved q \<le> budget_remaining (session_budget ?s)"
          using l(2) [OF q] k by (simp_all flip: o_left_def b_left_def)
      qed (use l(1) l(2) [OF q] k in \<open>simp_all add: reservation_ok_def\<close>)
      ultimately show ?thesis unfolding eqs F k_def [symmetric] Some option.case r prod.case
        by (cases r) simp_all
    qed
  qed
qed

lemma limited_read_charged:
  assumes "limited_read source_read now n s = (res, s1)" "limited_ok s"
  shows "limited_ok s1 \<and> charged_by (case res of Inl _ \<Rightarrow> 0 | Inr bs \<Rightarrow> length bs) s s1"
proof (cases "n = 0")
  case True
  then show ?thesis using assms by (auto simp: limited_read_def)
next
  case False
  then have "read_outcome n s (res, s1)" using limited_read_outcome [OF assms(2), of n now] assms(1) by simp
  then show ?thesis by (cases res) (simp_all add: read_outcome_def)
qed

lemma limited_reads_charged:
  assumes "limited_reads source_read calls s = (outs, e, s')" "limited_ok s"
  shows "limited_ok s' \<and> charged_by (length (concat outs)) s s'"
  using assms
proof (induction calls arbitrary: s outs)
  case Nil
  then show ?case by simp
next
  case (Cons c calls)
  obtain now n where c: "c = (now, n)" by fastforce
  obtain res s1 where r: "limited_read source_read now n s = (res, s1)" by fastforce
  note 1 = limited_read_charged [OF r Cons.prems(2)]
  show ?case
  proof (cases res)
    case (Inl x)
    then have "outs = []" "s' = s1" using Cons.prems(1) r c by simp_all
    then show ?thesis using 1 Inl by simp
  next
    case (Inr bs)
    obtain outs' e' s2 where rs: "limited_reads source_read calls s1 = (outs', e', s2)" by (cases "limited_reads source_read calls s1") simp
    have eq: "outs = bs # outs'" "e' = e" "s2 = s'" using Cons.prems(1) r Inr rs c by simp_all
    have 2: "limited_ok s' \<and> charged_by (length (concat outs')) s1 s'"
      by (rule Cons.IH) (use rs eq(2,3) 1 in simp_all)
    have "charged_by (length bs) s s1" using 1 Inr by simp
    then have "charged_by (length bs + length (concat outs')) s s'" using 2 charged_by_trans by blast
    then show ?thesis using 2 eq(1) by simp
  qed
qed

end

interpretation slice_source: bounded_source slice_read
  by unfold_locales (auto simp: slice_read_def)

text \<open>
  C19: One read through the limits, for any source that keeps the contract of Read, with or without rates:
  bytes are returned exactly as one read of the source gave them and are all charged to the object and to
  the session; nothing is charged on an error; the end of the stream is reported only when the source reports
  it; and a limit error is raised only when the source still had a byte.
\<close>
theorem limited_read_exact:
  assumes "bounded_source source_read" "limited_ok s" "0 < n" "limited_read source_read now n s = (res, s')"
  shows "limited_ok s' \<and> (case res of
      Inr bs \<Rightarrow> charged_by (length bs) s s' \<and> length bs \<le> n \<and>
        (\<exists>k>0. k \<le> n \<and> source_read k (wrapped s) = (Inr bs, wrapped s'))
    | Inl e \<Rightarrow> charged_by 0 s s' \<and>
        ((\<exists>k>0. k \<le> n \<and> source_read k (wrapped s) = (Inl e, wrapped s')) \<or>
         (\<exists>b. source_read 1 (wrapped s) = (Inr [b], wrapped s')) \<and>
          e \<in> {invalid_data ''NAR object byte limit exceeded'', invalid_data ''transfer session byte limit exceeded'',
                invalid_data ''NAR inbound rate limit exceeded''}))"
  using bounded_source.limited_read_outcome [OF assms(1-3), of now] assms(4)
  by (cases res) (simp_all add: bounded_source.read_outcome_def [OF assms(1)])

definition example_budget :: transfer_budget where
  "example_budget = \<lparr>budget_limit = 10, budget_charged = 0\<rparr>"

theorem limited_read_exact_witness:
  "fst (limited_read slice_read 0 5 (new_limited [1, 2, 3] 2 example_budget)) = Inr [1, 2]
   \<and> charged_by 2 (new_limited [1, 2, 3] 2 example_budget)
       (snd (limited_read slice_read 0 5 (new_limited [1, 2, 3] 2 example_budget)))"
proof -
  let ?s = "new_limited [1, 2, 3] 2 example_budget"
  obtain s' where s': "limited_read slice_read 0 5 ?s = (Inr [1, 2], s')"
    by (simp add: limited_read_def new_limited_def example_budget_def budget_remaining_def read_reserved_def
        slice_read_def account_transfer_def charge_transfer_def checked_add_def usize_limit_def
        commit_reservation_def)
  have "limited_ok (?s :: bytes limited)" by (simp add: limited_ok_def new_limited_def example_budget_def)
  then show ?thesis
    using limited_read_exact [OF slice_source.bounded_source_axioms _ _ s'] s' by (simp add: numeral_2_eq_2)
qed




subsection \<open>The writer\<close>

definition outbound_limit_errors :: "io_error set" where
  "outbound_limit_errors = {invalid_data ''NAR object byte limit exceeded'',
     invalid_data ''transfer session byte limit exceeded'', invalid_data ''NAR outbound rate limit exceeded''}"

text \<open>The contract of \<^verbatim>\<open>Write::write\<close>: at most as many bytes are taken as the buffer holds.\<close>

locale bounded_sink =
  fixes sink_write :: "'s sink_write"
  assumes sink_write_bound: "sink_write bs s = (Inr n, s') \<Longrightarrow> n \<le> length bs"
begin

definition write_outcome :: "bytes \<Rightarrow> 's limited \<Rightarrow> (io_error + nat) \<times> 's limited \<Rightarrow> bool" where
  "write_outcome buffer s out \<longleftrightarrow> limited_ok (snd out) \<and> (case out of
     (Inr n, s') \<Rightarrow> charged_by n s s' \<and>
       (\<exists>k>0. k \<le> length buffer \<and> sink_write (take k buffer) (wrapped s) = (Inr n, wrapped s') \<and>
         (n < k \<or> n = length buffer))
   | (Inl e, s') \<Rightarrow>
       charged_by 0 s s' \<and> wrapped s' = wrapped s \<and> e \<in> outbound_limit_errors \<or>
       (\<exists>k>0. k \<le> length buffer \<and>
         (sink_write (take k buffer) (wrapped s) = (Inl e, wrapped s') \<and> charged_by 0 s s' \<or>
          k < length buffer \<and> sink_write (take k buffer) (wrapped s) = (Inr k, wrapped s') \<and> charged_by k s s' \<and>
            e \<in> outbound_limit_errors)))"

lemma write_reserved_outcome:
  assumes "limited_ok s" "0 < k" "k \<le> length buffer" "charged_by 0 s0 s" "wrapped s = wrapped s0"
    and "k \<le> object_limit s - object_charged s" "k \<le> budget_remaining (session_budget s)" "reservation_ok r k"
  shows "write_outcome buffer s0 (write_reserved sink_write buffer k limited o_left b_left r s)"
proof -
  obtain res w where r: "sink_write (take k buffer) (wrapped s0) = (res, w)" by fastforce
  show ?thesis
  proof (cases res)
    case (Inl e)
    then have "write_reserved sink_write buffer k limited o_left b_left r s
        = (Inl e, release_reservation r (s\<lparr>wrapped := w\<rparr>))"
      using r assms(5) by (simp add: write_reserved_def)
    moreover have "sink_write (take k buffer) (wrapped s0) = (Inl e, w)" using r Inl by simp
    ultimately show ?thesis using assms(1-4) unfolding write_outcome_def by auto
  next
    case (Inr n)
    then have n: "n \<le> k" using sink_write_bound r assms(3) by fastforce
    let ?s = "s\<lparr>wrapped := w\<rparr>"
    have "reservation_ok r n" using assms(8) n by (auto simp: reservation_ok_def split: option.splits)
    then obtain s' where s': "account_transfer n r ?s = (Inr (), s')" "limited_ok s'"
      "charged_by n ?s s'" "wrapped s' = wrapped ?s"
      using account_transfer_ok [of ?s n r] assms(1,6,7) n by auto
    have c: "charged_by n s0 s'" using charged_by_trans [OF assms(4), of n s'] s'(3) by simp
    have w: "sink_write (take k buffer) (wrapped s0) = (Inr n, wrapped s')" using r Inr s'(4) by simp
    show ?thesis
    proof (cases "k < length buffer \<and> n = k")
      case True
      obtain e where e: "write_reserved sink_write buffer k limited o_left b_left r s = (Inl e, s')"
        "e \<in> outbound_limit_errors"
        using True r Inr assms(5) s'(1) by (simp add: write_reserved_def outbound_limit_errors_def)
      have "k < length buffer \<and> sink_write (take k buffer) (wrapped s0) = (Inr k, wrapped s') \<and> charged_by k s0 s'"
        using True w c by simp
      then show ?thesis unfolding e(1) write_outcome_def using e(2) s'(2) assms(2,3) by auto
    next
      case False
      then have eq: "write_reserved sink_write buffer k limited o_left b_left r s = (Inr n, s')"
        using r Inr assms(5) s'(1) by (auto simp: write_reserved_def)
      have "n < k \<or> n = length buffer" using False n assms(3) by linarith
      then show ?thesis unfolding eq write_outcome_def using w c s'(2) assms(2,3) by auto
    qed
  qed
qed

lemma limited_write_outcome:
  assumes "limited_ok s" "buffer \<noteq> []"
  shows "write_outcome buffer s (limited_write sink_write now buffer s)"
proof -
  define o_left where "o_left = object_limit s - object_charged s"
  define b_left where "b_left = budget_remaining (session_budget s)"
  define k where "k = min (length buffer) (min o_left b_left)"
  have n: "(buffer = []) = False" using assms(2) by simp
  note eqs = limited_write_def Let_def n if_False o_left_def [symmetric] b_left_def [symmetric] k_def [symmetric]
  have refused: "write_outcome buffer s (Inl (invalid_data m), s1)"
    if "m \<in> {''NAR object byte limit exceeded'', ''transfer session byte limit exceeded'', ''NAR outbound rate limit exceeded''}"
      "limited_ok s1" "charged_by 0 s s1" "wrapped s1 = wrapped s" for m s1
    using that by (auto simp: write_outcome_def outbound_limit_errors_def)
  consider "b_left = 0" | "b_left \<noteq> 0" "k = 0" | "b_left \<noteq> 0" "k \<noteq> 0" by blast
  then show ?thesis
  proof cases
    case 1
    then show ?thesis unfolding eqs using refused assms(1) by simp
  next
    case 2
    then show ?thesis unfolding eqs using refused assms(1) by simp
  next
    case 3
    then have F: "(b_left = 0) = False" "(k = 0) = False" by simp_all
    have k: "0 < k" "k \<le> length buffer" "k \<le> o_left" "k \<le> b_left" using 3 by (simp_all add: k_def)
    show ?thesis
    proof (cases "rate_state s")
      case None
      have "write_outcome buffer s (write_reserved sink_write buffer k False o_left b_left None s)"
        by (rule write_reserved_outcome)
          (use assms(1) k in \<open>simp_all add: reservation_ok_def flip: o_left_def b_left_def\<close>)
      then show ?thesis unfolding eqs F None by simp
    next
      case (Some bs)
      obtain r bs' where r: "reserve now k False bs = (r, bs')" by fastforce
      let ?s = "s\<lparr>rate_state := Some bs'\<rparr>"
      note l = reserve_limited [OF r assms(1) Some]
      have "write_outcome buffer s (Inl (invalid_data ''NAR outbound rate limit exceeded''), ?s)"
        by (rule refused) (use l(1) in auto)
      moreover have "write_outcome buffer s (write_reserved sink_write buffer (reservation_reserved q)
          (reservation_reserved q < k) o_left b_left (Some q) ?s)" if q: "r = Some q" for q
      proof (rule write_reserved_outcome)
        show "reservation_reserved q \<le> object_limit ?s - object_charged ?s"
          "reservation_reserved q \<le> budget_remaining (session_budget ?s)"
          using l(2) [OF q] k by (simp_all flip: o_left_def b_left_def)
      qed (use l(1) l(2) [OF q] k in \<open>simp_all add: reservation_ok_def\<close>)
      ultimately show ?thesis unfolding eqs F Some option.case r prod.case by (cases r) simp_all
    qed
  qed
qed

end

interpretation vec_sink: bounded_sink vec_write
  by unfold_locales (auto simp: vec_write_def)

text \<open>
  C20: One write through the limits, for any sink that keeps the contract of Write, with or without rates: on
  success the sink took a prefix of the buffer that is charged in full, and fewer bytes than the buffer are
  reported only when the sink itself took fewer than it was offered; an error comes from the sink, or reports
  a limit after exactly the bytes that fitted were taken and charged, so no limit silently shortens a transfer.
\<close>
theorem limited_write_exact:
  assumes "bounded_sink sink_write" "limited_ok s" "buffer \<noteq> []" "limited_write sink_write now buffer s = (res, s')"
  shows "limited_ok s' \<and> (case res of
      Inr n \<Rightarrow> charged_by n s s' \<and>
        (\<exists>k>0. k \<le> length buffer \<and> sink_write (take k buffer) (wrapped s) = (Inr n, wrapped s') \<and>
          (n < k \<or> n = length buffer))
    | Inl e \<Rightarrow>
        charged_by 0 s s' \<and> wrapped s' = wrapped s \<and> e \<in> outbound_limit_errors \<or>
        (\<exists>k>0. k \<le> length buffer \<and>
          (sink_write (take k buffer) (wrapped s) = (Inl e, wrapped s') \<and> charged_by 0 s s' \<or>
           k < length buffer \<and> sink_write (take k buffer) (wrapped s) = (Inr k, wrapped s') \<and> charged_by k s s' \<and>
             e \<in> outbound_limit_errors)))"
  using bounded_sink.limited_write_outcome [OF assms(1-3), of now] assms(4)
  by (cases res) (simp_all add: bounded_sink.write_outcome_def [OF assms(1)])

theorem limited_write_exact_witness:
  "fst (limited_write vec_write 0 [1, 2, 3] (new_limited [9] 2 example_budget))
     = Inl (invalid_data ''NAR object byte limit exceeded'')
   \<and> wrapped (snd (limited_write vec_write 0 [1, 2, 3] (new_limited [9] 2 example_budget))) = [9, 1, 2]
   \<and> limited_ok (snd (limited_write vec_write 0 [1, 2, 3] (new_limited [9] 2 example_budget)))"
proof -
  let ?s = "new_limited [9] 2 example_budget"
  obtain s' where s': "limited_write vec_write 0 [1, 2, 3] ?s = (Inl (invalid_data ''NAR object byte limit exceeded''), s')"
    "wrapped s' = [9, 1, 2]"
    by (simp add: limited_write_def new_limited_def example_budget_def budget_remaining_def write_reserved_def
        vec_write_def account_transfer_def charge_transfer_def checked_add_def usize_limit_def
        commit_reservation_def release_reservation_def)
  have "limited_ok (?s :: bytes limited)" by (simp add: limited_ok_def new_limited_def example_budget_def)
  then show ?thesis
    using limited_write_exact [OF vec_sink.bounded_sink_axioms _ _ s'(1)] s' by simp
qed

end
