(* ===== verification/Disk_Reserve.thy ===== *)
theory Disk_Reserve
  imports Prelude
begin

text \<open>
  The disk reserve of \<^verbatim>\<open>telchar/src/service/disk_reserve.rs\<close>: which builds, transfers and promotions the free
  space of the gateway admits. The probe of the operating system is a parameter; amounts are natural numbers
  with the overflow checks of \<^verbatim>\<open>u64\<close> written out.
\<close>

section \<open>Measurements and failures\<close>

record filesystem =
  fs_identity :: nat
  fs_available_bytes :: nat

datatype rejection_reason = InsufficientSpace | ProbeFailed | ArithmeticOverflow

record admission_failure =
  failure_filesystem :: string
  failure_required_bytes :: nat
  failure_available_bytes :: "nat option"
  failure_reason :: rejection_reason

definition insufficient :: "string \<Rightarrow> nat \<Rightarrow> nat \<Rightarrow> admission_failure" where
  "insufficient name required available =
     \<lparr>failure_filesystem = name, failure_required_bytes = required,
      failure_available_bytes = Some available, failure_reason = InsufficientSpace\<rparr>"

definition failed_admission :: "string \<Rightarrow> rejection_reason \<Rightarrow> admission_failure" where
  "failed_admission name reason =
     \<lparr>failure_filesystem = name, failure_required_bytes = 0, failure_available_bytes = None, failure_reason = reason\<rparr>"

datatype probe_error = Failed | Overflow

type_synonym 'p probe = "'p \<Rightarrow> probe_error + filesystem"

section \<open>The reserve\<close>

definition DEFAULT_GATEWAY_DISK_RESERVE_BYTES :: nat where
  "DEFAULT_GATEWAY_DISK_RESERVE_BYTES = 10 * 1024 * 1024 * 1024"

definition parse_disk_reserve :: "string \<Rightarrow> io_error + nat" where
  "parse_disk_reserve text =
     (case parse_u64 text of
        None \<Rightarrow> Inl (invalid_input ''invalid gateway disk reserve'')
      | Some n \<Rightarrow> if n > 0 then Inr n else Inl (invalid_input ''invalid gateway disk reserve''))"

definition disk_reserve_from_environment :: "(string \<Rightarrow> string option) \<Rightarrow> io_error + nat" where
  "disk_reserve_from_environment env =
     parse_disk_reserve (case env ''TELCHAR_GATEWAY_DISK_RESERVE_BYTES'' of
       Some v \<Rightarrow> v | None \<Rightarrow> show_nat DEFAULT_GATEWAY_DISK_RESERVE_BYTES)"

definition measure_filesystem :: "'p probe \<Rightarrow> 'p \<Rightarrow> filesystem option" where
  "measure_filesystem probe path = (case probe path of Inl _ \<Rightarrow> None | Inr fs \<Rightarrow> Some fs)"

definition admit_bytes :: "string \<Rightarrow> nat \<Rightarrow> nat \<Rightarrow> admission_failure + unit" where
  "admit_bytes name available required =
     (if available < required then Inl (insufficient name required available) else Inr ())"

definition admit_build :: "nat \<Rightarrow> 'p probe \<Rightarrow> 'p \<Rightarrow> admission_failure + unit" where
  "admit_build reserve_bytes probe store_directory =
     (case measure_filesystem probe store_directory of
        Some store \<Rightarrow> admit_bytes ''gateway-store'' (fs_available_bytes store) reserve_bytes
      | None \<Rightarrow> Inr ())"

definition admit_copy :: "nat \<Rightarrow> string \<Rightarrow> filesystem \<Rightarrow> nat \<Rightarrow> admission_failure + unit" where
  "admit_copy reserve_bytes name measured nar_size =
     (case checked_add reserve_bytes nar_size of
        None \<Rightarrow> Inl (failed_admission name ArithmeticOverflow)
      | Some required \<Rightarrow> admit_bytes name (fs_available_bytes measured) required)"

definition admit_transfer_filesystems ::
  "nat \<Rightarrow> filesystem \<Rightarrow> filesystem \<Rightarrow> nat \<Rightarrow> nat \<Rightarrow> admission_failure + unit" where
  "admit_transfer_filesystems reserve_bytes store staging nar_size staging_bytes =
     (if fs_identity store = fs_identity staging then
        case Option.bind (checked_add nar_size staging_bytes) (checked_add reserve_bytes) of
          None \<Rightarrow> Inl (failed_admission ''shared'' ArithmeticOverflow)
        | Some required \<Rightarrow>
            admit_bytes ''shared'' (min (fs_available_bytes store) (fs_available_bytes staging)) required
      else
        case checked_add reserve_bytes nar_size of
          None \<Rightarrow> Inl (failed_admission ''gateway-store'' ArithmeticOverflow)
        | Some required \<Rightarrow>
            result_then (admit_bytes ''gateway-store'' (fs_available_bytes store) required) (\<lambda>_.
            admit_copy reserve_bytes ''staging'' staging staging_bytes))"

definition admit_staging :: "nat \<Rightarrow> 'p probe \<Rightarrow> 'p \<Rightarrow> 'p \<Rightarrow> nat \<Rightarrow> nat \<Rightarrow> admission_failure + unit" where
  "admit_staging reserve_bytes probe store_directory staging_directory nar_size staging_copies =
     (case checked_mul nar_size staging_copies of
        None \<Rightarrow> Inl (failed_admission ''staging'' ArithmeticOverflow)
      | Some staging_bytes \<Rightarrow>
          (case (measure_filesystem probe store_directory, measure_filesystem probe staging_directory) of
             (Some store, Some staging) \<Rightarrow> admit_transfer_filesystems reserve_bytes store staging nar_size staging_bytes
           | (None, None) \<Rightarrow> Inr ()
           | (Some measured, None) \<Rightarrow> admit_copy reserve_bytes ''gateway-store'' measured nar_size
           | (None, Some measured) \<Rightarrow> admit_copy reserve_bytes ''staging'' measured staging_bytes))"

definition admit_transfer :: "nat \<Rightarrow> 'p probe \<Rightarrow> 'p \<Rightarrow> 'p \<Rightarrow> nat \<Rightarrow> admission_failure + unit" where
  "admit_transfer reserve_bytes probe store_directory staging_directory nar_size =
     admit_staging reserve_bytes probe store_directory staging_directory nar_size 1"

definition admit_promotion :: "nat \<Rightarrow> 'p probe \<Rightarrow> 'p \<Rightarrow> 'p \<Rightarrow> nat \<Rightarrow> admission_failure + unit" where
  "admit_promotion reserve_bytes probe store_directory staging_directory nar_size =
     admit_staging reserve_bytes probe store_directory staging_directory nar_size 2"

section \<open>What admission means\<close>

text \<open>
  The reference: every measured filesystem keeps the reserve after everything that the operation writes to it,
  where two directories with one identity draw on the same space.
\<close>

definition bytes_for :: "filesystem \<Rightarrow> (filesystem \<times> nat) list \<Rightarrow> nat" where
  "bytes_for fs writes = (\<Sum>(g, n)\<leftarrow>writes. if fs_identity g = fs_identity fs then n else 0)"

definition reserve_kept :: "nat \<Rightarrow> (filesystem \<times> nat) list \<Rightarrow> bool" where
  "reserve_kept reserve_bytes writes \<longleftrightarrow>
     list_all (\<lambda>(fs, _). reserve_bytes + bytes_for fs writes \<le> fs_available_bytes fs) writes"

definition planned_writes :: "'p probe \<Rightarrow> 'p \<Rightarrow> 'p \<Rightarrow> nat \<Rightarrow> nat \<Rightarrow> (filesystem \<times> nat) list" where
  "planned_writes probe store_directory staging_directory nar_size staging_bytes =
     (case measure_filesystem probe store_directory of None \<Rightarrow> [] | Some fs \<Rightarrow> [(fs, nar_size)]) @
     (case measure_filesystem probe staging_directory of None \<Rightarrow> [] | Some fs \<Rightarrow> [(fs, staging_bytes)])"

definition probe_in_range :: "'p probe \<Rightarrow> bool" where
  "probe_in_range probe \<longleftrightarrow> (\<forall>p fs. probe p = Inr fs \<longrightarrow> fs_available_bytes fs < 2 ^ 64)"

lemma probe_in_rangeD: "\<lbrakk>probe_in_range probe; measure_filesystem probe p = Some fs\<rbrakk> \<Longrightarrow> fs_available_bytes fs < 2 ^ 64"
  by (auto simp: probe_in_range_def measure_filesystem_def split: sum.splits)

lemma admit_bytes_Inr [simp]: "admit_bytes name available required = Inr u \<longleftrightarrow> required \<le> available"
  by (auto simp: admit_bytes_def)

lemma admit_copy_Inr:
  "fs_available_bytes fs < 2 ^ 64 \<Longrightarrow>
     admit_copy reserve_bytes name fs n = Inr u \<longleftrightarrow> reserve_bytes + n \<le> fs_available_bytes fs"
  by (auto simp: admit_copy_def checked_add_def usize_limit_def)

lemma admit_transfer_filesystems_Inr:
  assumes "fs_available_bytes store < 2 ^ 64" "fs_available_bytes staging < 2 ^ 64"
  shows "admit_transfer_filesystems reserve_bytes store staging n m = Inr u \<longleftrightarrow>
    reserve_kept reserve_bytes [(store, n), (staging, m)]"
proof (cases "fs_identity store = fs_identity staging")
  case True
  then show ?thesis using assms
    by (auto simp: admit_transfer_filesystems_def reserve_kept_def bytes_for_def checked_add_def usize_limit_def)
next
  case False
  then show ?thesis using assms
    by (auto simp: admit_transfer_filesystems_def reserve_kept_def bytes_for_def checked_add_def usize_limit_def admit_copy_Inr)
qed

text \<open>
  C14: A transfer, which keeps one staged copy, and a promotion, which keeps two, are admitted exactly when every
  measured filesystem keeps the reserve after all bytes planned for it, with the space of one filesystem that
  holds both directories counted once, and when the staged bytes are a 64-bit number. An unmeasured filesystem
  never refuses, and arithmetic that would overflow always does.
\<close>
theorem disk_admission_exact:
  assumes "probe_in_range probe"
  shows "(admit_build reserve_bytes probe store = Inr () \<longleftrightarrow>
      (case measure_filesystem probe store of None \<Rightarrow> True | Some fs \<Rightarrow> reserve_kept reserve_bytes [(fs, 0)]))
    \<and> (admit_transfer reserve_bytes probe store staging nar_size = Inr () \<longleftrightarrow>
      nar_size < 2 ^ 64 \<and> reserve_kept reserve_bytes (planned_writes probe store staging nar_size nar_size))
    \<and> (admit_promotion reserve_bytes probe store staging nar_size = Inr () \<longleftrightarrow>
      2 * nar_size < 2 ^ 64 \<and> reserve_kept reserve_bytes (planned_writes probe store staging nar_size (2 * nar_size)))"
proof -
  have staging: "admit_staging reserve_bytes probe store staging nar_size copies = Inr () \<longleftrightarrow>
      copies * nar_size < 2 ^ 64 \<and>
      reserve_kept reserve_bytes (planned_writes probe store staging nar_size (copies * nar_size))" for copies
    using probe_in_rangeD [OF assms, of store] probe_in_rangeD [OF assms, of staging]
    by (auto simp: admit_staging_def checked_mul_def usize_limit_def planned_writes_def admit_transfer_filesystems_Inr
        admit_copy_Inr mult.commute [of nar_size] reserve_kept_def [of _ "[]"] reserve_kept_def [of _ "[x]" for x]
        bytes_for_def split: option.splits)
  have build: "admit_build reserve_bytes probe store = Inr () \<longleftrightarrow>
      (case measure_filesystem probe store of None \<Rightarrow> True | Some fs \<Rightarrow> reserve_kept reserve_bytes [(fs, 0)])"
    by (auto simp: admit_build_def reserve_kept_def bytes_for_def split: option.splits)
  show ?thesis unfolding admit_transfer_def admit_promotion_def staging build by simp
qed

definition example_probe :: "bool probe" where
  "example_probe directory = Inr \<lparr>fs_identity = 7, fs_available_bytes = 100\<rparr>"

theorem disk_admission_exact_witness:
  "admit_transfer 60 example_probe True False 20 = Inr () \<and> admit_promotion 60 example_probe True False 20 \<noteq> Inr ()
   \<and> reserve_kept 60 (planned_writes example_probe True False 20 20)"
proof -
  have "probe_in_range example_probe" by (simp add: probe_in_range_def example_probe_def)
  moreover have "admit_transfer 60 example_probe True False 20 = Inr ()"
    by (simp add: admit_transfer_def admit_staging_def admit_transfer_filesystems_def measure_filesystem_def
        example_probe_def checked_add_def checked_mul_def usize_limit_def)
  moreover have "admit_promotion 60 example_probe True False 20 \<noteq> Inr ()"
    by (simp add: admit_promotion_def admit_staging_def admit_transfer_filesystems_def measure_filesystem_def
        example_probe_def checked_add_def checked_mul_def usize_limit_def admit_bytes_def)
  ultimately show ?thesis using disk_admission_exact [of example_probe 60 True False 20] by simp
qed

end
