(* ===== verification/Shared_Builds.thy ===== *)
theory Shared_Builds
  imports Budget
begin

text \<open>
  The durable shared-build records of \<^verbatim>\<open>telchar/src/persistence/shared_builds.rs\<close>. The tables are lists of rows
  and each function is the one transaction it runs, with its SQL statements written as functions on the
  tables; a transaction that fails leaves the tables as they were. \<^verbatim>\<open>transaction_timestamp()\<close> is the argument
  \<^verbatim>\<open>now\<close>, in microseconds; the database is configured and its numbers are unbounded. Left out: the trace context of attempts, and failures of the database itself (of the
  connection, of the commit, of the fence and of a column constraint of the migrations). The keys, the unique index on
  active attempts and the columns that each state requires are not checked by the statements: the invariant
  shows that the transactions keep them by themselves.
\<close>

section \<open>Rows\<close>

type_synonym utf8 = bytes

datatype shared_build_failure = Configuration | Connection | Conflict | InvalidState | Quota | Query | Commit

datatype shared_build_state = StateClaimed | StateRunning | StateCollecting | StateSucceeded | StateFailed

datatype shared_build_attempt_state = AttemptRunning | AttemptCollecting | AttemptSucceeded | AttemptFailed

datatype shared_build_ownership = OwnershipClaimed | OwnershipJoined

datatype backend_kind = LocalKind | StaticSshKind | NomadKind | MicrovmKind

datatype execution_recovery = OutputOnly | Adoptable
datatype cancellation_capability = ConnectionBound | Explicit
datatype log_recovery = LiveOnly | Replayable

record backend_capabilities =
  cap_execution_recovery :: execution_recovery
  cap_cancellation :: cancellation_capability
  cap_log_recovery :: log_recovery

fun capabilities :: "backend_kind \<Rightarrow> backend_capabilities" where
  "capabilities LocalKind =
     \<lparr>cap_execution_recovery = OutputOnly, cap_cancellation = ConnectionBound, cap_log_recovery = LiveOnly\<rparr>"
| "capabilities StaticSshKind =
     \<lparr>cap_execution_recovery = OutputOnly, cap_cancellation = ConnectionBound, cap_log_recovery = LiveOnly\<rparr>"
| "capabilities MicrovmKind =
     \<lparr>cap_execution_recovery = OutputOnly, cap_cancellation = Explicit, cap_log_recovery = LiveOnly\<rparr>"
| "capabilities NomadKind =
     \<lparr>cap_execution_recovery = Adoptable, cap_cancellation = Explicit, cap_log_recovery = LiveOnly\<rparr>"

text \<open>Of a JSON value the code reads its length as text and whether it is an object.\<close>

record json =
  json_text :: bytes
  json_is_object :: bool

text \<open>
  Of a build request it reads the derivation path, the digest, the output paths and the verdict of
  \<^verbatim>\<open>validate_for_execution\<close>; its encoding stands for the rest of it.
\<close>

record stored_request =
  br_derivation_path :: bytes
  br_shared_build_digest :: bytes
  br_expected_outputs :: "(bytes \<times> bytes) list"
  br_executable :: bool
  br_encoding :: bytes

record shared_build =
  sb_path :: utf8
  sb_digest :: bytes
  sb_state :: shared_build_state
  sb_backend_name :: utf8
  sb_backend_kind :: backend_kind
  sb_capabilities :: backend_capabilities
  sb_execution_id :: "utf8 option"
  sb_outputs :: "utf8 list"
  sb_request :: "stored_request option"
  sb_result :: "json option"
  sb_failure :: "utf8 option"
  sb_created_at :: nat
  sb_started_at :: "nat option"
  sb_collecting_at :: "nat option"
  sb_completed_at :: "nat option"
  sb_expires_at :: "nat option"
  sb_subject :: "utf8 option"
  sb_position :: "nat option"
  sb_queued_at :: "nat option"

record queue_entry =
  qe_path :: utf8
  qe_subject :: utf8
  qe_position :: nat
  qe_queued_at :: nat

record build_attempt =
  at_id :: nat
  at_path :: utf8
  at_ordinal :: nat
  at_backend_name :: utf8
  at_backend_kind :: backend_kind
  at_execution_id :: "utf8 option"
  at_state :: shared_build_attempt_state
  at_started_at :: nat
  at_collecting_at :: "nat option"
  at_completed_at :: "nat option"

record attempt_outcome =
  oc_attempt :: nat
  oc_classification :: utf8
  oc_result :: json

record database =
  db_builds :: "shared_build list"
  db_attempts :: "build_attempt list"
  db_outcomes :: "attempt_outcome list"
  db_next_position :: nat
  db_next_attempt :: nat
  db_scheduler_subject :: "utf8 option"

definition empty_database :: database where
  "empty_database = \<lparr>db_builds = [], db_attempts = [], db_outcomes = [], db_next_position = 1,
     db_next_attempt = 1, db_scheduler_subject = None\<rparr>"

type_synonym 'a transaction = "database \<Rightarrow> shared_build_failure + ('a \<times> database)"

section \<open>Validation\<close>

definition MAX_IPC_COMPONENT_BYTES :: nat where "MAX_IPC_COMPONENT_BYTES = 256"

definition MAX_IPC_CREDENTIAL_ID_BYTES :: nat where "MAX_IPC_CREDENTIAL_ID_BYTES = 1024"

definition text_within :: "nat \<Rightarrow> utf8 \<Rightarrow> bool" where
  "text_within n t \<longleftrightarrow> t \<noteq> [] \<and> length t \<le> n \<and> 0 \<notin> set t"

definition valid_execution_id :: "utf8 option \<Rightarrow> bool" where
  "valid_execution_id e = (case e of None \<Rightarrow> True | Some i \<Rightarrow> text_within MAXIMUM_WORKER_STORE_PATH_BYTES i)"

definition validate_shared_build_identity :: "utf8 \<Rightarrow> shared_build_failure + unit" where
  "validate_shared_build_identity path =
     (if text_within MAXIMUM_WORKER_STORE_PATH_BYTES path then Inr () else Inl Configuration)"

definition validate_shared_build_claim ::
  "utf8 \<Rightarrow> bytes \<Rightarrow> utf8 \<Rightarrow> backend_kind \<Rightarrow> backend_capabilities \<Rightarrow> utf8 option \<Rightarrow> utf8 list
     \<Rightarrow> shared_build_failure + unit" where
  "validate_shared_build_claim path digest name kind caps execution outputs =
     (let valid_outputs = outputs \<noteq> [] \<and> length outputs \<le> 64 \<and>
            list_all (text_within MAXIMUM_WORKER_STORE_PATH_BYTES) outputs \<and> distinct outputs in
      if \<not> text_within MAXIMUM_WORKER_STORE_PATH_BYTES path \<or> length digest \<noteq> 32 \<or>
         \<not> text_within MAX_IPC_COMPONENT_BYTES name \<or> caps \<noteq> capabilities kind \<or>
         \<not> valid_execution_id execution \<or> (cap_execution_recovery caps = Adoptable \<and> execution = None) \<or>
         \<not> valid_outputs
      then Inl Configuration else Inr ())"

definition request_matches :: "stored_request \<Rightarrow> utf8 \<Rightarrow> bytes \<Rightarrow> utf8 list \<Rightarrow> bool" where
  "request_matches q path digest outputs \<longleftrightarrow> br_executable q \<and> br_derivation_path q = path \<and>
     br_shared_build_digest q = digest \<and> map snd (br_expected_outputs q) = outputs"

definition decode_shared_build :: "shared_build \<Rightarrow> shared_build_failure + shared_build" where
  "decode_shared_build r =
     (case validate_shared_build_claim (sb_path r) (sb_digest r) (sb_backend_name r) (sb_backend_kind r)
             (sb_capabilities r) (sb_execution_id r) (sb_outputs r) of
        Inl _ \<Rightarrow> Inl Query
      | Inr _ \<Rightarrow>
          if (case sb_request r of None \<Rightarrow> False
              | Some q \<Rightarrow> \<not> request_matches q (sb_path r) (sb_digest r) (sb_outputs r)) then Inl Query
          else if (case sb_result r of None \<Rightarrow> False | Some m \<Rightarrow> \<not> json_is_object m) \<or>
             (case sb_failure r of None \<Rightarrow> False | Some c \<Rightarrow> c = [] \<or> MAX_IPC_COMPONENT_BYTES < length c) \<or>
             (sb_state r = StateSucceeded \<and> (sb_result r = None \<or> sb_failure r \<noteq> None)) \<or>
             (sb_state r = StateFailed \<and> (sb_result r = None \<or> sb_failure r = None)) \<or>
             (sb_state r \<notin> {StateSucceeded, StateFailed} \<and>
              (sb_result r \<noteq> None \<or> sb_failure r \<noteq> None \<or> sb_completed_at r \<noteq> None \<or> sb_expires_at r \<noteq> None))
          then Inl Query else Inr r)"

definition decode_shared_build_queue_entry :: "shared_build \<Rightarrow> shared_build_failure + queue_entry" where
  "decode_shared_build_queue_entry r =
     (case (sb_subject r, sb_position r, sb_queued_at r) of
        (Some subject, Some place, Some queued_at) \<Rightarrow>
          if sb_path r = [] \<or> subject = [] \<or> place = 0 then Inl Query
          else Inr \<lparr>qe_path = sb_path r, qe_subject = subject, qe_position = place, qe_queued_at = queued_at\<rparr>
      | _ \<Rightarrow> Inl Query)"

section \<open>Statements\<close>

definition find_build :: "utf8 \<Rightarrow> database \<Rightarrow> shared_build option" where
  "find_build path db = List.find (\<lambda>r. sb_path r = path) (db_builds db)"

definition update_build :: "utf8 \<Rightarrow> (shared_build \<Rightarrow> shared_build) \<Rightarrow> database \<Rightarrow> database" where
  "update_build path f db = db\<lparr>db_builds := map (\<lambda>r. if sb_path r = path then f r else r) (db_builds db)\<rparr>"

definition attempt_matches :: "utf8 \<Rightarrow> shared_build_attempt_state set \<Rightarrow> build_attempt \<Rightarrow> bool" where
  "attempt_matches path states a \<longleftrightarrow> at_path a = path \<and> at_state a \<in> states"

definition matching_attempts :: "(build_attempt \<Rightarrow> bool) \<Rightarrow> database \<Rightarrow> build_attempt list" where
  "matching_attempts P db = filter P (db_attempts db)"

definition update_attempts ::
  "(build_attempt \<Rightarrow> bool) \<Rightarrow> (build_attempt \<Rightarrow> build_attempt) \<Rightarrow> database \<Rightarrow> database" where
  "update_attempts P f db = db\<lparr>db_attempts := map (\<lambda>a. if P a then f a else a) (db_attempts db)\<rparr>"

definition insert_outcome :: "attempt_outcome \<Rightarrow> database \<Rightarrow> database" where
  "insert_outcome oc db = db\<lparr>db_outcomes := db_outcomes db @ [oc]\<rparr>"

definition queued_count :: "utf8 \<Rightarrow> database \<Rightarrow> nat" where
  "queued_count subject db =
     length (filter (\<lambda>r. sb_state r = StateClaimed \<and> sb_subject r = Some subject) (db_builds db))"

definition active_builds_of :: "utf8 \<Rightarrow> database \<Rightarrow> nat" where
  "active_builds_of subject db =
     length (filter (\<lambda>r. sb_subject r = Some subject \<and> sb_state r \<in> {StateRunning, StateCollecting}) (db_builds db))"

section \<open>Transactions\<close>

definition enqueue_shared_build :: "utf8 \<Rightarrow> utf8 \<Rightarrow> nat \<Rightarrow> nat \<Rightarrow> queue_entry transaction" where
  "enqueue_shared_build path subject maximum_queued_builds now db =
     result_then (validate_shared_build_identity path) (\<lambda>_.
     if \<not> text_within MAX_IPC_CREDENTIAL_ID_BYTES subject \<or> maximum_queued_builds = 0 \<or> 65536 < maximum_queued_builds
     then Inl Configuration
     else if maximum_queued_builds \<le> queued_count subject db then Inl Quota
     else
       case find_build path db of
         None \<Rightarrow> Inl InvalidState
       | Some r \<Rightarrow>
           if sb_state r = StateClaimed \<and> sb_subject r = None then
             let queue = (\<lambda>r. r\<lparr>sb_subject := Some subject, sb_position := Some (db_next_position db), sb_queued_at := Some now\<rparr>) in
             result_then (decode_shared_build_queue_entry (queue r)) (\<lambda>entry.
             Inr (entry, (update_build path queue db)\<lparr>db_next_position := db_next_position db + 1\<rparr>))
           else Inl InvalidState)"

definition next_ordinal :: "utf8 \<Rightarrow> database \<Rightarrow> nat" where
  "next_ordinal path db = foldr max (map at_ordinal (filter (\<lambda>a. at_path a = path) (db_attempts db))) 0 + 1"

definition create_shared_build_attempt :: "shared_build \<Rightarrow> nat \<Rightarrow> build_attempt transaction" where
  "create_shared_build_attempt build now db =
     (let attempt = \<lparr>at_id = db_next_attempt db, at_path = sb_path build, at_ordinal = next_ordinal (sb_path build) db,
            at_backend_name = sb_backend_name build, at_backend_kind = sb_backend_kind build,
            at_execution_id = sb_execution_id build, at_state = AttemptRunning,
            at_started_at = now, at_collecting_at = None, at_completed_at = None\<rparr> in
      Inr (attempt, db\<lparr>db_attempts := db_attempts db @ [attempt], db_next_attempt := db_next_attempt db + 1\<rparr>))"

text \<open>\<^verbatim>\<open>UPDATE shared_builds SET state = 'running' ... RETURNING\<close> and the attempt that both starts create.\<close>

definition mark_running :: "shared_build \<Rightarrow> nat \<Rightarrow> shared_build transaction" where
  "mark_running r now db =
     (let start = (\<lambda>r. r\<lparr>sb_state := StateRunning, sb_started_at := Some now\<rparr>) in
      result_then (decode_shared_build (start r)) (\<lambda>build.
      result_then (create_shared_build_attempt build now (update_build (sb_path r) start db)) (\<lambda>(_, db1).
      Inr (build, db1))))"

definition start_queued_shared_build :: "utf8 \<Rightarrow> nat \<Rightarrow> nat \<Rightarrow> shared_build transaction" where
  "start_queued_shared_build path maximum_active_builds now db =
     result_then (validate_shared_build_identity path) (\<lambda>_.
     if maximum_active_builds = 0 \<or> 65536 < maximum_active_builds then Inl Configuration
     else
       case find_build path db of
         None \<Rightarrow> Inl InvalidState
       | Some r \<Rightarrow>
           (case sb_subject r of
              None \<Rightarrow> Inl InvalidState
            | Some subject \<Rightarrow>
                if sb_state r \<noteq> StateClaimed then Inl InvalidState
                else if maximum_active_builds \<le> active_builds_of subject db then Inl Quota
                else mark_running r now db))"

definition start_shared_build :: "utf8 \<Rightarrow> nat \<Rightarrow> shared_build transaction" where
  "start_shared_build path now db =
     result_then (validate_shared_build_identity path) (\<lambda>_.
     case find_build path db of
       None \<Rightarrow> Inl InvalidState
     | Some r \<Rightarrow> if sb_state r \<noteq> StateClaimed then Inl InvalidState else mark_running r now db)"

definition claimed_row ::
  "utf8 \<Rightarrow> bytes \<Rightarrow> utf8 \<Rightarrow> backend_kind \<Rightarrow> backend_capabilities \<Rightarrow> utf8 option \<Rightarrow> utf8 list
     \<Rightarrow> stored_request option \<Rightarrow> nat \<Rightarrow> shared_build" where
  "claimed_row path digest name kind caps execution outputs request now =
     \<lparr>sb_path = path, sb_digest = digest, sb_state = StateClaimed, sb_backend_name = name, sb_backend_kind = kind,
      sb_capabilities = caps, sb_execution_id = execution, sb_outputs = outputs, sb_request = request,
      sb_result = None, sb_failure = None,
      sb_created_at = now, sb_started_at = None, sb_collecting_at = None, sb_completed_at = None,
      sb_expires_at = None, sb_subject = None, sb_position = None, sb_queued_at = None\<rparr>"

text \<open>\<^verbatim>\<open>INSERT ... ON CONFLICT DO UPDATE ... WHERE state = 'failed'\<close>: whether a row was written, and the table.\<close>

definition claim_row :: "shared_build \<Rightarrow> database \<Rightarrow> bool \<times> database" where
  "claim_row row db =
     (case find_build (sb_path row) db of
        None \<Rightarrow> (True, db\<lparr>db_builds := db_builds db @ [row]\<rparr>)
      | Some r \<Rightarrow> if sb_state r = StateFailed then (True, update_build (sb_path row) (\<lambda>_. row) db) else (False, db))"

definition claim_shared_build_inner ::
  "utf8 \<Rightarrow> bytes \<Rightarrow> utf8 \<Rightarrow> backend_kind \<Rightarrow> backend_capabilities \<Rightarrow> utf8 option \<Rightarrow> utf8 list
     \<Rightarrow> stored_request option \<Rightarrow> nat \<Rightarrow> (shared_build_ownership \<times> shared_build) transaction" where
  "claim_shared_build_inner path digest name kind caps execution outputs request now db =
     result_then (validate_shared_build_claim path digest name kind caps execution outputs) (\<lambda>_.
     let (inserted, db1) = claim_row (claimed_row path digest name kind caps execution outputs request now) db in
     case find_build path db1 of
       None \<Rightarrow> Inl Query
     | Some r \<Rightarrow>
         result_then (decode_shared_build r) (\<lambda>build.
         if sb_digest build \<noteq> digest then Inl Conflict
         else if \<not> inserted \<and> (sb_outputs build \<noteq> outputs \<or> sb_request build \<noteq> request) then Inl Conflict
         else Inr ((if inserted then OwnershipClaimed else OwnershipJoined, build), db1)))"

definition claim_shared_build ::
  "utf8 \<Rightarrow> bytes \<Rightarrow> utf8 \<Rightarrow> backend_kind \<Rightarrow> backend_capabilities \<Rightarrow> utf8 option \<Rightarrow> utf8 list \<Rightarrow> nat
     \<Rightarrow> (shared_build_ownership \<times> shared_build) transaction" where
  "claim_shared_build path digest name kind caps execution outputs now =
     claim_shared_build_inner path digest name kind caps execution outputs None now"

definition claim_shared_build_with_request ::
  "utf8 \<Rightarrow> bytes \<Rightarrow> utf8 \<Rightarrow> backend_kind \<Rightarrow> backend_capabilities \<Rightarrow> utf8 option \<Rightarrow> utf8 list
     \<Rightarrow> stored_request \<Rightarrow> nat \<Rightarrow> (shared_build_ownership \<times> shared_build) transaction" where
  "claim_shared_build_with_request path digest name kind caps execution outputs request now db =
     (if \<not> request_matches request path digest outputs then Inl Configuration
      else claim_shared_build_inner path digest name kind caps execution outputs (Some request) now db)"

definition reassign_running_shared_build ::
  "utf8 \<Rightarrow> utf8 \<Rightarrow> backend_kind \<Rightarrow> backend_capabilities \<Rightarrow> utf8 option \<Rightarrow> shared_build transaction" where
  "reassign_running_shared_build path name kind caps execution db =
     result_then (validate_shared_build_identity path) (\<lambda>_.
     if \<not> text_within MAX_IPC_COMPONENT_BYTES name \<or> caps \<noteq> capabilities kind \<or> \<not> valid_execution_id execution \<or>
        (cap_execution_recovery caps = Adoptable \<and> execution = None)
     then Inl Configuration
     else
       case find_build path db of
         None \<Rightarrow> Inl InvalidState
       | Some r \<Rightarrow>
           if sb_state r \<noteq> StateRunning then Inl InvalidState
           else
             let assign = (\<lambda>r. r\<lparr>sb_backend_name := name, sb_backend_kind := kind, sb_capabilities := caps,
                    sb_execution_id := execution\<rparr>);
                 running = attempt_matches path {AttemptRunning} in
             if length (matching_attempts running db) \<noteq> 1 then Inl InvalidState
             else
               result_then (decode_shared_build (assign r)) (\<lambda>build.
               Inr (build, update_attempts running
                 (\<lambda>a. a\<lparr>at_backend_name := name, at_backend_kind := kind, at_execution_id := execution\<rparr>)
                 (update_build path assign db))))"

definition metadata_admitted :: "json \<Rightarrow> bool" where
  "metadata_admitted m \<longleftrightarrow> json_is_object m \<and> length (json_text m) \<le> 1048576"

definition retry_shared_build ::
  "utf8 \<Rightarrow> utf8 \<Rightarrow> utf8 \<Rightarrow> utf8 \<Rightarrow> json \<Rightarrow> nat \<Rightarrow> build_attempt transaction" where
  "retry_shared_build path current_execution next_execution classification metadata now db =
     result_then (validate_shared_build_identity path) (\<lambda>_.
     if \<not> text_within MAXIMUM_WORKER_STORE_PATH_BYTES current_execution \<or>
        \<not> text_within MAXIMUM_WORKER_STORE_PATH_BYTES next_execution \<or>
        \<not> text_within MAX_IPC_COMPONENT_BYTES classification \<or> \<not> metadata_admitted metadata
     then Inl Configuration
     else
       case find_build path db of
         None \<Rightarrow> Inl InvalidState
       | Some r \<Rightarrow>
           if sb_execution_id r \<noteq> Some current_execution \<or> sb_state r \<noteq> StateRunning then Inl InvalidState
           else
             let renew = (\<lambda>r. r\<lparr>sb_execution_id := Some next_execution\<rparr>);
                 current = (\<lambda>a. attempt_matches path {AttemptRunning} a \<and> at_execution_id a = Some current_execution) in
             (case matching_attempts current db of
                [] \<Rightarrow> Inl InvalidState
              | _ # _ # _ \<Rightarrow> Inl Query
              | [old] \<Rightarrow>
                  result_then (decode_shared_build (renew r)) (\<lambda>build.
                  create_shared_build_attempt build now
                    (insert_outcome \<lparr>oc_attempt = at_id old, oc_classification = classification, oc_result = metadata\<rparr>
                      (update_attempts current (\<lambda>a. a\<lparr>at_state := AttemptFailed, at_completed_at := Some now\<rparr>)
                        (update_build path renew db))))))"

definition collect_shared_build :: "utf8 \<Rightarrow> nat \<Rightarrow> shared_build transaction" where
  "collect_shared_build path now db =
     result_then (validate_shared_build_identity path) (\<lambda>_.
     case find_build path db of
       None \<Rightarrow> Inl InvalidState
     | Some r \<Rightarrow>
         if sb_state r \<noteq> StateRunning then Inl InvalidState
         else
           let gather = (\<lambda>r. r\<lparr>sb_state := StateCollecting, sb_collecting_at := Some now\<rparr>);
               running = attempt_matches path {AttemptRunning} in
           if length (matching_attempts running db) \<noteq> 1 then Inl InvalidState
           else
             result_then (decode_shared_build (gather r)) (\<lambda>build.
             Inr (build, update_attempts running
               (\<lambda>a. a\<lparr>at_state := AttemptCollecting, at_collecting_at := Some now\<rparr>) (update_build path gather db))))"

definition terminal_attempt :: "shared_build_state \<Rightarrow> shared_build_attempt_state" where
  "terminal_attempt st = (if st = StateSucceeded then AttemptSucceeded else AttemptFailed)"

definition complete_shared_build ::
  "utf8 \<Rightarrow> shared_build_state \<Rightarrow> utf8 option \<Rightarrow> json \<Rightarrow> nat \<Rightarrow> nat \<Rightarrow> shared_build transaction" where
  "complete_shared_build path terminal failure metadata retention now db =
     result_then (validate_shared_build_identity path) (\<lambda>_.
     if \<not> metadata_admitted metadata \<or> retention = 0 \<or> 86400 * 10 ^ 9 < retention \<or>
        (case failure of None \<Rightarrow> False | Some c \<Rightarrow> \<not> text_within MAX_IPC_COMPONENT_BYTES c) \<or>
        (terminal = StateFailed \<and> failure = None) \<or> (terminal = StateSucceeded \<and> failure \<noteq> None) \<or>
        terminal \<notin> {StateSucceeded, StateFailed}
     then Inl Configuration
     else
       case find_build path db of
         None \<Rightarrow> Inl InvalidState
       | Some r \<Rightarrow>
           if (terminal = StateSucceeded \<and> sb_state r \<noteq> StateCollecting) \<or>
              (terminal = StateFailed \<and> sb_state r \<notin> {StateClaimed, StateRunning, StateCollecting})
           then Inl InvalidState
           else
             let finish = (\<lambda>r. r\<lparr>sb_state := terminal, sb_result := Some metadata, sb_failure := failure,
                    sb_completed_at := Some now, sb_expires_at := Some (now + retention div 10 ^ 9 * 10 ^ 6)\<rparr>);
                 active = attempt_matches path {AttemptRunning, AttemptCollecting} in
             result_then
               (if sb_state r = StateClaimed then Inr (update_build path finish db)
                else
                  case matching_attempts active db of
                    [] \<Rightarrow> Inl InvalidState
                  | _ # _ # _ \<Rightarrow> Inl Query
                  | [a] \<Rightarrow>
                      Inr (insert_outcome \<lparr>oc_attempt = at_id a,
                             oc_classification = (case failure of None \<Rightarrow> ascii ''succeeded'' | Some c \<Rightarrow> c),
                             oc_result = metadata\<rparr>
                        (update_attempts active
                          (\<lambda>a. a\<lparr>at_state := terminal_attempt terminal, at_completed_at := Some now\<rparr>)
                          (update_build path finish db)))) (\<lambda>db1.
             result_then (decode_shared_build (finish r)) (\<lambda>build. Inr (build, db1))))"

definition complete_shared_build_success :: "utf8 \<Rightarrow> json \<Rightarrow> nat \<Rightarrow> nat \<Rightarrow> shared_build transaction" where
  "complete_shared_build_success path metadata retention now =
     complete_shared_build path StateSucceeded None metadata retention now"

definition complete_shared_build_failure :: "utf8 \<Rightarrow> utf8 \<Rightarrow> json \<Rightarrow> nat \<Rightarrow> nat \<Rightarrow> shared_build transaction" where
  "complete_shared_build_failure path classification metadata retention now =
     complete_shared_build path StateFailed (Some classification) metadata retention now"

section \<open>Queries\<close>

text \<open>\<^verbatim>\<open>query_opt\<close>: at most one row, and an error on more.\<close>

definition query_opt :: "'a list \<Rightarrow> shared_build_failure + 'a option" where
  "query_opt rows = (case rows of [] \<Rightarrow> Inr None | [r] \<Rightarrow> Inr (Some r) | _ \<Rightarrow> Inl Query)"

definition decode_option :: "shared_build option \<Rightarrow> shared_build_failure + shared_build option" where
  "decode_option r = (case r of None \<Rightarrow> Inr None | Some r \<Rightarrow> map_sum id Some (decode_shared_build r))"

definition read_shared_build :: "utf8 \<Rightarrow> database \<Rightarrow> shared_build_failure + shared_build option" where
  "read_shared_build path db =
     result_then (validate_shared_build_identity path) (\<lambda>_.
     result_then (query_opt (filter (\<lambda>r. sb_path r = path) (db_builds db))) decode_option)"

definition read_shared_build_by_execution :: "utf8 \<Rightarrow> utf8 \<Rightarrow> database \<Rightarrow> shared_build_failure + shared_build option" where
  "read_shared_build_by_execution name execution db =
     (if \<not> text_within MAX_IPC_COMPONENT_BYTES name \<or> \<not> text_within MAXIMUM_WORKER_STORE_PATH_BYTES execution
      then Inl Configuration
      else result_then (query_opt (filter (\<lambda>r. sb_backend_name r = name \<and> sb_execution_id r = Some execution \<and>
             sb_state r \<in> {StateRunning, StateCollecting}) (db_builds db))) decode_option)"

record shared_build_operational_counts =
  count_queued :: nat
  count_running :: nat
  count_collecting :: nat

definition read_shared_build_operational_counts :: "database \<Rightarrow> shared_build_operational_counts" where
  "read_shared_build_operational_counts db =
     \<lparr>count_queued = length (filter (\<lambda>r. sb_state r = StateClaimed \<and> sb_position r \<noteq> None) (db_builds db)),
      count_running = length (filter (\<lambda>r. sb_state r = StateRunning) (db_builds db)),
      count_collecting = length (filter (\<lambda>r. sb_state r = StateCollecting) (db_builds db))\<rparr>"

definition read_shared_build_scheduler_subject :: "database \<Rightarrow> utf8 option" where
  "read_shared_build_scheduler_subject db = db_scheduler_subject db"

definition record_shared_build_scheduler_subject :: "utf8 \<Rightarrow> unit transaction" where
  "record_shared_build_scheduler_subject subject db =
     (if \<not> text_within MAX_IPC_CREDENTIAL_ID_BYTES subject then Inl Configuration
      else Inr ((), db\<lparr>db_scheduler_subject := Some subject\<rparr>))"

definition read_shared_build_attempt :: "utf8 \<Rightarrow> database \<Rightarrow> shared_build_failure + build_attempt option" where
  "read_shared_build_attempt path db =
     result_then (validate_shared_build_identity path) (\<lambda>_.
     case rev (sort_key at_ordinal (filter (\<lambda>a. at_path a = path) (db_attempts db))) of
       [] \<Rightarrow> Inr None | a # _ \<Rightarrow> Inr (Some a))"

definition read_shared_build_attempt_outcome :: "nat \<Rightarrow> database \<Rightarrow> shared_build_failure + attempt_outcome option" where
  "read_shared_build_attempt_outcome attempt db =
     (if attempt = 0 then Inl Configuration
      else result_then (query_opt (filter (\<lambda>oc. oc_attempt oc = attempt) (db_outcomes db))) (\<lambda>row.
        case row of None \<Rightarrow> Inr None
        | Some oc \<Rightarrow> if \<not> json_is_object (oc_result oc) then Inl Query else Inr (Some oc)))"

section \<open>Runs\<close>

inductive build_step :: "database \<Rightarrow> database \<Rightarrow> bool" where
  step_claim_bare: "claim_shared_build path digest name kind caps execution outputs now db = Inr (v, db') \<Longrightarrow> build_step db db'"
| step_claim: "claim_shared_build_with_request path digest name kind caps execution outputs request now db = Inr (v, db')
    \<Longrightarrow> build_step db db'"
| step_enqueue: "enqueue_shared_build path subject maximum now db = Inr (e, db') \<Longrightarrow> build_step db db'"
| step_start_queued: "start_queued_shared_build path maximum now db = Inr (b, db') \<Longrightarrow> build_step db db'"
| step_start: "start_shared_build path now db = Inr (b, db') \<Longrightarrow> build_step db db'"
| step_reassign: "reassign_running_shared_build path name kind caps execution db = Inr (b, db') \<Longrightarrow> build_step db db'"
| step_retry: "retry_shared_build path current_execution next_execution classification metadata now db = Inr (a, db')
    \<Longrightarrow> build_step db db'"
| step_collect: "collect_shared_build path now db = Inr (b, db') \<Longrightarrow> build_step db db'"
| step_success: "complete_shared_build_success path metadata retention now db = Inr (b, db') \<Longrightarrow> build_step db db'"
| step_failure: "complete_shared_build_failure path classification metadata retention now db = Inr (b, db')
    \<Longrightarrow> build_step db db'"
| step_record: "record_shared_build_scheduler_subject subject db = Inr (u, db') \<Longrightarrow> build_step db db'"

inductive build_reachable :: "database \<Rightarrow> bool" where
  reachable_empty: "build_reachable empty_database"
| reachable_step: "\<lbrakk>build_reachable db; build_step db db'\<rbrakk> \<Longrightarrow> build_reachable db'"

section \<open>One path at a time\<close>

definition attempts_of :: "utf8 \<Rightarrow> database \<Rightarrow> build_attempt list" where
  "attempts_of path db = filter (\<lambda>a. at_path a = path) (db_attempts db)"

definition attempt_active :: "build_attempt \<Rightarrow> bool" where
  "attempt_active a \<longleftrightarrow> at_state a \<in> {AttemptRunning, AttemptCollecting}"

definition same_backend :: "shared_build \<Rightarrow> build_attempt \<Rightarrow> bool" where
  "same_backend r a \<longleftrightarrow> at_backend_name a = sb_backend_name r \<and> at_backend_kind a = sb_backend_kind r \<and>
     at_execution_id a = sb_execution_id r"

text \<open>The attempts of a build: all finished, but for the last one of a build that is running or collecting.\<close>

definition attempts_fit :: "shared_build \<Rightarrow> build_attempt list \<Rightarrow> bool" where
  "attempts_fit r as \<longleftrightarrow>
     (if sb_state r \<in> {StateRunning, StateCollecting}
      then as \<noteq> [] \<and> list_all (\<lambda>a. \<not> attempt_active a) (butlast as) \<and> same_backend r (last as) \<and>
        at_state (last as) = (if sb_state r = StateRunning then AttemptRunning else AttemptCollecting)
      else list_all (\<lambda>a. \<not> attempt_active a) as)"

text \<open>The columns each state requires: \<^verbatim>\<open>shared_builds_state_timestamp_check\<close> and its queue counterpart.\<close>

definition state_columns :: "shared_build \<Rightarrow> bool" where
  "state_columns r = (case sb_state r of
       StateClaimed \<Rightarrow> sb_started_at r = None \<and> sb_collecting_at r = None \<and> sb_completed_at r = None
     | StateRunning \<Rightarrow> sb_started_at r \<noteq> None \<and> sb_collecting_at r = None \<and> sb_completed_at r = None
     | StateCollecting \<Rightarrow> sb_started_at r \<noteq> None \<and> sb_collecting_at r \<noteq> None \<and> sb_completed_at r = None
     | _ \<Rightarrow> sb_completed_at r \<noteq> None)"

fun queue_columns :: "utf8 option \<Rightarrow> nat option \<Rightarrow> nat option \<Rightarrow> bool" where
  "queue_columns None None None \<longleftrightarrow> True"
| "queue_columns (Some s) (Some n) (Some t) \<longleftrightarrow> text_within MAX_IPC_CREDENTIAL_ID_BYTES s \<and> n \<noteq> 0"
| "queue_columns _ _ _ \<longleftrightarrow> False"

definition row_ok :: "shared_build \<Rightarrow> bool" where
  "row_ok r \<longleftrightarrow> decode_shared_build r = Inr r \<and> state_columns r \<and>
     queue_columns (sb_subject r) (sb_position r) (sb_queued_at r)"

definition path_ok :: "utf8 \<Rightarrow> shared_build option \<Rightarrow> build_attempt list \<Rightarrow> bool" where
  "path_ok path r as \<longleftrightarrow> map at_ordinal as = [1..<Suc (length as)] \<and>
     (case r of None \<Rightarrow> as = [] | Some r \<Rightarrow> sb_path r = path \<and> row_ok r \<and> attempts_fit r as)"

definition outcomes_ok :: "build_attempt list \<Rightarrow> attempt_outcome list \<Rightarrow> nat \<Rightarrow> bool" where
  "outcomes_ok as os n \<longleftrightarrow> distinct (map at_id as) \<and> list_all (\<lambda>a. at_id a < n) as \<and> distinct (map oc_attempt os) \<and>
     set (map oc_attempt os) = at_id ` {a \<in> set as. \<not> attempt_active a}"

definition db_ok :: "database \<Rightarrow> bool" where
  "db_ok db \<longleftrightarrow> distinct (map sb_path (db_builds db)) \<and> db_next_position db \<noteq> 0 \<and>
     (\<forall>path. path_ok path (find_build path db) (attempts_of path db)) \<and>
     outcomes_ok (db_attempts db) (db_outcomes db) (db_next_attempt db)"

lemma find_build_Some: "find_build path db = Some r \<Longrightarrow> sb_path r = path \<and> r \<in> set (db_builds db)"
  by (auto simp: find_build_def find_Some_iff)

lemma find_map_path:
  assumes "\<And>r. sb_path (f r) = sb_path r"
  shows "List.find (\<lambda>r. sb_path r = q) (map (\<lambda>r. if sb_path r = p then f r else r) rs) =
    (if q = p then map_option f (List.find (\<lambda>r. sb_path r = p) rs) else List.find (\<lambda>r. sb_path r = q) rs)"
  by (induction rs) (auto simp: assms)

lemma find_build_update:
  assumes "\<And>r. sb_path (f r) = sb_path r"
  shows "find_build q (update_build p f db) = (if q = p then map_option f (find_build p db) else find_build q db)"
  by (simp add: find_build_def update_build_def find_map_path [OF assms])

lemma find_build_const:
  assumes "sb_path row = p"
  shows "find_build q (update_build p (\<lambda>_. row) db) =
    (if q = p then map_option (\<lambda>_. row) (find_build p db) else find_build q db)"
proof -
  have "List.find (\<lambda>r. sb_path r = q) (map (\<lambda>r. if sb_path r = p then row else r) rs) =
    (if q = p then map_option (\<lambda>_. row) (List.find (\<lambda>r. sb_path r = p) rs) else List.find (\<lambda>r. sb_path r = q) rs)" for rs
    by (induction rs) (auto simp: assms)
  then show ?thesis by (simp add: find_build_def update_build_def)
qed

lemma find_build_append:
  "find_build q (db\<lparr>db_builds := db_builds db @ [row]\<rparr>) =
     (case find_build q db of Some r \<Rightarrow> Some r | None \<Rightarrow> if sb_path row = q then Some row else None)"
proof -
  have "List.find P (xs @ [y]) = (case List.find P xs of Some r \<Rightarrow> Some r | None \<Rightarrow> if P y then Some y else None)" for P xs and y :: shared_build
    by (induction xs) auto
  then show ?thesis by (simp add: find_build_def)
qed

lemma update_build_simps [simp]:
  "db_attempts (update_build p f db) = db_attempts db" "db_outcomes (update_build p f db) = db_outcomes db"
  "db_next_attempt (update_build p f db) = db_next_attempt db" "db_next_position (update_build p f db) = db_next_position db"
  by (simp_all add: update_build_def)

lemma update_attempts_simps [simp]:
  "db_builds (update_attempts P f db) = db_builds db" "db_outcomes (update_attempts P f db) = db_outcomes db"
  "db_next_attempt (update_attempts P f db) = db_next_attempt db"
  "db_next_position (update_attempts P f db) = db_next_position db"
  "find_build q (update_attempts P f db) = find_build q db"
  by (simp_all add: update_attempts_def find_build_def)

lemma insert_outcome_simps [simp]:
  "db_builds (insert_outcome oc db) = db_builds db" "db_attempts (insert_outcome oc db) = db_attempts db"
  "db_next_attempt (insert_outcome oc db) = db_next_attempt db"
  "db_next_position (insert_outcome oc db) = db_next_position db"
  "db_outcomes (insert_outcome oc db) = db_outcomes db @ [oc]"
  "find_build q (insert_outcome oc db) = find_build q db" "attempts_of q (insert_outcome oc db) = attempts_of q db"
  by (simp_all add: insert_outcome_def find_build_def attempts_of_def)

lemma attempts_of_update_build [simp]: "attempts_of q (update_build p f db) = attempts_of q db"
  by (simp add: attempts_of_def)

lemma attempts_of_update:
  assumes "\<And>a. at_path (f a) = at_path a"
  shows "attempts_of q (update_attempts P f db) = map (\<lambda>a. if P a then f a else a) (attempts_of q db)"
proof -
  have "filter (\<lambda>a. at_path a = q) (map (\<lambda>a. if P a then f a else a) as) =
      map (\<lambda>a. if P a then f a else a) (filter (\<lambda>a. at_path a = q) as)" for as
    by (induction as) (auto simp: assms)
  then show ?thesis by (simp add: attempts_of_def update_attempts_def)
qed

lemma distinct_paths_update [simp]:
  "(\<And>r. sb_path (f r) = sb_path r) \<Longrightarrow> map sb_path (db_builds (update_build p f db)) = map sb_path (db_builds db)"
  by (auto simp: update_build_def)

lemma distinct_paths_const [simp]:
  "sb_path row = p \<Longrightarrow> map sb_path (db_builds (update_build p (\<lambda>_. row) db)) = map sb_path (db_builds db)"
  by (auto simp: update_build_def)

section \<open>Preservation\<close>

text \<open>What decoding checks, by the columns it reads: those that identify the build, and those of its result.\<close>

definition build_identity :: "shared_build \<Rightarrow> bool" where
  "build_identity r \<longleftrightarrow>
     validate_shared_build_claim (sb_path r) (sb_digest r) (sb_backend_name r) (sb_backend_kind r)
       (sb_capabilities r) (sb_execution_id r) (sb_outputs r) = Inr () \<and>
     (\<forall>q. sb_request r = Some q \<longrightarrow> request_matches q (sb_path r) (sb_digest r) (sb_outputs r))"

definition result_columns :: "shared_build \<Rightarrow> bool" where
  "result_columns r \<longleftrightarrow>
     (case sb_result r of None \<Rightarrow> True | Some m \<Rightarrow> json_is_object m) \<and>
     (case sb_failure r of None \<Rightarrow> True | Some c \<Rightarrow> c \<noteq> [] \<and> length c \<le> MAX_IPC_COMPONENT_BYTES) \<and>
     (sb_state r = StateSucceeded \<longrightarrow> sb_result r \<noteq> None \<and> sb_failure r = None) \<and>
     (sb_state r = StateFailed \<longrightarrow> sb_result r \<noteq> None \<and> sb_failure r \<noteq> None) \<and>
     (sb_state r \<notin> {StateSucceeded, StateFailed} \<longrightarrow>
        sb_result r = None \<and> sb_failure r = None \<and> sb_completed_at r = None \<and> sb_expires_at r = None)"

lemma decode_iff: "decode_shared_build r = Inr b \<longleftrightarrow> b = r \<and> build_identity r \<and> result_columns r"
proof -
  have "validate_shared_build_claim (sb_path r) (sb_digest r) (sb_backend_name r) (sb_backend_kind r)
       (sb_capabilities r) (sb_execution_id r) (sb_outputs r) = v \<Longrightarrow> ?thesis" for v
    by (cases v; cases "sb_request r"; cases "sb_result r"; cases "sb_failure r")
      (auto simp: decode_shared_build_def build_identity_def result_columns_def)
  then show ?thesis by blast
qed

lemma build_identity_update [simp]:
  "build_identity (r\<lparr>sb_state := s\<rparr>) = build_identity r" "build_identity (r\<lparr>sb_started_at := t\<rparr>) = build_identity r"
  "build_identity (r\<lparr>sb_collecting_at := t\<rparr>) = build_identity r" "build_identity (r\<lparr>sb_completed_at := t\<rparr>) = build_identity r"
  "build_identity (r\<lparr>sb_expires_at := t\<rparr>) = build_identity r" "build_identity (r\<lparr>sb_result := m\<rparr>) = build_identity r"
  "build_identity (r\<lparr>sb_failure := c\<rparr>) = build_identity r" "build_identity (r\<lparr>sb_subject := u\<rparr>) = build_identity r"
  "build_identity (r\<lparr>sb_position := n\<rparr>) = build_identity r" "build_identity (r\<lparr>sb_queued_at := t\<rparr>) = build_identity r"
  by (simp_all add: build_identity_def)

lemma db_okD:
  assumes "db_ok db"
  shows "path_ok path (find_build path db) (attempts_of path db)" "distinct (map sb_path (db_builds db))"
    "outcomes_ok (db_attempts db) (db_outcomes db) (db_next_attempt db)" "db_next_position db \<noteq> 0"
  using assms by (auto simp: db_ok_def)

lemma db_ok_change:
  assumes "db_ok db" "\<And>q. q \<noteq> path \<Longrightarrow> find_build q db' = find_build q db \<and> attempts_of q db' = attempts_of q db"
    and "path_ok path (find_build path db') (attempts_of path db')" "distinct (map sb_path (db_builds db'))"
    and "outcomes_ok (db_attempts db') (db_outcomes db') (db_next_attempt db')" "db_next_position db' \<noteq> 0"
  shows "db_ok db'"
  unfolding db_ok_def using assms db_okD(1) [OF assms(1)] by metis

lemma matching_states:
  "matching_attempts (attempt_matches path S) db = filter (\<lambda>a. at_state a \<in> S) (attempts_of path db)"
  by (auto simp: matching_attempts_def attempt_matches_def attempts_of_def intro: filter_cong)

lemma filter_active_last:
  assumes "attempts_fit r as" "sb_state r \<in> {StateRunning, StateCollecting}" "S \<subseteq> {AttemptRunning, AttemptCollecting}"
  shows "filter (\<lambda>a. at_state a \<in> S) as = (if at_state (last as) \<in> S then [last as] else [])"
proof -
  have as: "as \<noteq> []" "list_all (\<lambda>a. \<not> attempt_active a) (butlast as)"
    using assms(1,2) by (auto simp: attempts_fit_def)
  have "filter (\<lambda>a. at_state a \<in> S) (butlast as) = []"
    using as(2) assms(3) by (auto simp: filter_empty_conv list_all_iff attempt_active_def)
  moreover have "filter (\<lambda>a. at_state a \<in> S) as =
      filter (\<lambda>a. at_state a \<in> S) (butlast as) @ filter (\<lambda>a. at_state a \<in> S) [last as]"
    using as(1) by (metis append_butlast_last_id filter_append)
  ultimately show ?thesis by simp
qed

lemma map_active_last:
  assumes "attempts_fit r as" "sb_state r \<in> {StateRunning, StateCollecting}" "S \<subseteq> {AttemptRunning, AttemptCollecting}"
    and "at_state (last as) \<in> S"
  shows "map (\<lambda>a. if at_state a \<in> S then f a else a) as = butlast as @ [f (last as)]"
proof -
  have as: "as = butlast as @ [last as]" "list_all (\<lambda>a. \<not> attempt_active a) (butlast as)"
    using assms(1,2) by (auto simp: attempts_fit_def)
  have "map (\<lambda>a. if at_state a \<in> S then f a else a) (butlast as) = butlast as"
    using as(2) assms(3) by (intro map_idI) (auto simp: list_all_iff attempt_active_def)
  then show ?thesis using assms(4) by (subst as(1)) simp
qed

lemma attempts_of_update_states:
  assumes "\<And>a. at_path (f a) = at_path a"
  shows "attempts_of q (update_attempts (attempt_matches path S) f db) =
    (if q = path then map (\<lambda>a. if at_state a \<in> S then f a else a) (attempts_of q db) else attempts_of q db)"
  unfolding attempts_of_update [of f, OF assms]
  by (auto simp: attempts_of_def attempt_matches_def intro!: map_idI)

lemma upt_snoc_last: "map g (xs @ [x]) = [1..<Suc (length (xs @ [x]))] \<longleftrightarrow>
    map g xs = [1..<Suc (length xs)] \<and> g x = Suc (length xs)"
  by simp

lemma foldr_max_upt: "foldr max [1..<Suc n] 0 = n"
proof -
  have "foldr max [1..<Suc n] m = max n m" for m :: nat
    by (induction n arbitrary: m) (auto simp: max.assoc max_def)
  then show ?thesis by simp
qed

lemma next_ordinal_ok: "path_ok path r (attempts_of path db) \<Longrightarrow> next_ordinal path db = Suc (length (attempts_of path db))"
  unfolding next_ordinal_def attempts_of_def [symmetric] by (simp only: path_ok_def foldr_max_upt)

lemma outcomes_ok_map:
  assumes "outcomes_ok as os n" "\<And>a. at_id (g a) = at_id a" "\<And>a. attempt_active (g a) = attempt_active a"
  shows "outcomes_ok (map g as) os n"
proof -
  have ids: "map at_id (map g as) = map at_id as" using assms(2) by simp
  have "{a \<in> set (map g as). \<not> attempt_active a} = g ` {a \<in> set as. \<not> attempt_active a}"
    using assms(3) by auto
  then have acts: "at_id ` {a \<in> set (map g as). \<not> attempt_active a} = at_id ` {a \<in> set as. \<not> attempt_active a}"
    using assms(2) by (simp add: image_image)
  have "list_all (\<lambda>a. at_id a < n) (map g as)"
    using assms(1) unfolding list.pred_map comp_def assms(2) by (simp add: outcomes_ok_def)
  then show ?thesis using assms(1) unfolding outcomes_ok_def ids acts by blast
qed

lemma outcomes_ok_same:
  assumes "outcomes_ok as os n" "\<And>a. P a \<Longrightarrow> at_id (f a) = at_id a \<and> attempt_active (f a) = attempt_active a"
  shows "outcomes_ok (map (\<lambda>a. if P a then f a else a) as) os n"
  by (rule outcomes_ok_map [OF assms(1)]) (simp_all add: assms(2))

lemma outcomes_ok_append:
  assumes "outcomes_ok as os n" "at_id a = n" "attempt_active a"
  shows "outcomes_ok (as @ [a]) os (n + 1)"
  using assms unfolding outcomes_ok_def by (auto simp: list_all_iff)

lemma outcomes_ok_finish:
  assumes "outcomes_ok as os n" "filter P as = [old]" "attempt_active old" "oc_attempt oc = at_id old"
    and "\<And>a. at_id (f a) = at_id a \<and> \<not> attempt_active (f a)"
  shows "outcomes_ok (map (\<lambda>a. if P a then f a else a) as) (os @ [oc]) n"
proof -
  let ?g = "\<lambda>a. if P a then f a else a"
  have g: "at_id (?g a) = at_id a" for a using assms(5) by auto
  have "set (filter P as) = {old}" using assms(2) by simp
  then have old: "old \<in> set as" "P old" and P: "\<And>a. a \<in> set as \<Longrightarrow> P a \<longleftrightarrow> a = old" by auto
  have ids: "map at_id (map ?g as) = map at_id as" using g by simp
  have fin: "at_id ` {a \<in> set (map ?g as). \<not> attempt_active a} = insert (at_id old) (at_id ` {a \<in> set as. \<not> attempt_active a})"
  proof -
    have "{a \<in> set (map ?g as). \<not> attempt_active a} = insert (f old) {a \<in> set as. \<not> attempt_active a}"
      using P old assms(3,5) by (auto split: if_splits)
    then show ?thesis using assms(5) by simp
  qed
  have "at_id old \<notin> set (map oc_attempt os)"
  proof
    assume "at_id old \<in> set (map oc_attempt os)"
    then obtain a where "a \<in> set as" "\<not> attempt_active a" "at_id a = at_id old"
      using assms(1) by (auto simp: outcomes_ok_def)
    moreover have "inj_on at_id (set as)" using assms(1) by (simp add: outcomes_ok_def distinct_map)
    ultimately show False using old assms(3) by (metis inj_onD)
  qed
  moreover have "list_all (\<lambda>a. at_id a < n) (map ?g as)" using assms(1) unfolding list.pred_map comp_def g by (simp add: outcomes_ok_def)
  moreover have "distinct (map oc_attempt os)" "set (map oc_attempt os) = at_id ` {a \<in> set as. \<not> attempt_active a}"
    "distinct (map at_id as)"
    using assms(1) unfolding outcomes_ok_def by blast+
  ultimately show ?thesis unfolding outcomes_ok_def ids fin by (simp add: assms(4))
qed

lemma sb_path_fields [simp]: "sb_path (claimed_row path digest name kind caps execution outputs request now) = path"
  by (simp add: claimed_row_def)

lemma claimed_row_ok:
  "decode_shared_build (claimed_row path digest name kind caps execution outputs request now) =
     Inr (claimed_row path digest name kind caps execution outputs request now)
   \<Longrightarrow> list_all (\<lambda>a. \<not> attempt_active a) as \<Longrightarrow> map at_ordinal as = [1..<Suc (length as)]
   \<Longrightarrow> path_ok path (Some (claimed_row path digest name kind caps execution outputs request now)) as"
  by (simp add: path_ok_def row_ok_def state_columns_def attempts_fit_def) (simp add: claimed_row_def)

lemma claim_preserves:
  assumes "db_ok db" "claim_shared_build_inner path digest name kind caps execution outputs request now db = Inr (v, db')"
  shows "db_ok db'"
proof -
  define row where "row = claimed_row path digest name kind caps execution outputs request now"
  have row: "sb_path row = path" by (simp add: row_def)
  have db': "db' = snd (claim_row row db)" and dec: "\<And>r. find_build path db' = Some r \<Longrightarrow> decode_shared_build r = Inr r"
    using assms(2) unfolding claim_shared_build_inner_def row_def [symmetric]
    by (auto simp: decode_iff result_then_Inr split: prod.splits option.splits if_splits)
  have path: "path_ok path (find_build path db) (attempts_of path db)" by (rule db_okD(1) [OF assms(1)])
  consider (new) "find_build path db = None" "db' = db\<lparr>db_builds := db_builds db @ [row]\<rparr>"
    | (failed) r where "find_build path db = Some r" "sb_state r = StateFailed" "db' = update_build path (\<lambda>_. row) db"
    | (same) "db' = db"
    unfolding db' claim_row_def row
    by (cases "find_build path db"; cases "sb_state (the (find_build path db)) = StateFailed") auto
  then show ?thesis
  proof cases
    case new
    have find: "find_build path db' = Some row" by (simp add: new find_build_append row)
    have none: "attempts_of path db = []" using path new(1) by (simp add: path_ok_def)
    have path': "path_ok path (Some row) (attempts_of path db')"
      using claimed_row_ok [OF dec [OF find, unfolded row_def], of "[]"] none
      by (simp add: new(2) attempts_of_def row_def)
    have notin: "path \<notin> set (map sb_path (db_builds db))"
      using new(1) by (auto simp: find_build_def find_None_iff)
    show ?thesis
    proof (rule db_ok_change [OF assms(1)])
      show "q \<noteq> path \<Longrightarrow> find_build q db' = find_build q db \<and> attempts_of q db' = attempts_of q db" for q
        by (simp add: new(2) find_build_append row attempts_of_def split: option.split)
      show "path_ok path (find_build path db') (attempts_of path db')" using path' by (simp add: find)
      show "distinct (map sb_path (db_builds db'))" using notin db_okD(2) [OF assms(1)] by (simp add: new(2) row)
    qed (use db_okD(3,4) [OF assms(1)] in \<open>simp_all add: new(2)\<close>)
  next
    case failed
    have find: "find_build path db' = Some row" by (simp add: failed find_build_const row)
    have done_attempts: "list_all (\<lambda>a. \<not> attempt_active a) (attempts_of path db)"
      "map at_ordinal (attempts_of path db) = [1..<Suc (length (attempts_of path db))]"
      using path failed(1,2) by (auto simp: path_ok_def attempts_fit_def)
    show ?thesis
    proof (rule db_ok_change [OF assms(1)])
      show "q \<noteq> path \<Longrightarrow> find_build q db' = find_build q db \<and> attempts_of q db' = attempts_of q db" for q
        by (simp add: failed(3) find_build_const row)
      show "path_ok path (find_build path db') (attempts_of path db')"
        using claimed_row_ok [OF dec [OF find, unfolded row_def] done_attempts]
        by (simp add: failed(3) find_build_const row failed(1) row_def)
    qed (use db_okD(2,3,4) [OF assms(1)] in \<open>simp_all add: failed(3) row\<close>)
  qed (simp add: assms(1))
qed

lemma enqueue_preserves:
  assumes "db_ok db" "enqueue_shared_build path subject maximum now db = Inr (e, db')"
  shows "db_ok db'"
proof -
  define queue where "queue = (\<lambda>r :: shared_build. r\<lparr>sb_subject := Some subject, sb_position := Some (db_next_position db),
    sb_queued_at := Some now\<rparr>)"
  obtain r where r: "find_build path db = Some r" "sb_state r = StateClaimed" "text_within MAX_IPC_CREDENTIAL_ID_BYTES subject"
    and db': "db' = (update_build path queue db)\<lparr>db_next_position := db_next_position db + 1\<rparr>"
    using assms(2) unfolding enqueue_shared_build_def queue_def
    by (auto simp: result_then_Inr Let_def split: option.splits if_splits)
  have q: "sb_path (queue r) = sb_path r" for r by (simp add: queue_def)
  have find: "find_build q db' = (if q = path then map_option queue (find_build path db) else find_build q db)" for q
    using find_build_update [of queue, OF q, of q path db] unfolding db' by (simp add: find_build_def)
  have att: "attempts_of q db' = attempts_of q db" for q by (simp add: db' attempts_of_def)
  have "path_ok path (Some r) (attempts_of path db)" using db_okD(1) [OF assms(1), of path] r(1) by simp
  then have "path_ok path (Some (queue r)) (attempts_of path db)"
    using r(2,3) db_okD(4) [OF assms(1)]
    by (auto simp: path_ok_def row_ok_def attempts_fit_def queue_def decode_iff state_columns_def result_columns_def
        text_within_def)
  then show ?thesis
    using db_okD [OF assms(1)] q by (intro db_ok_change [OF assms(1), of path]) (simp_all add: find att r(1), simp_all add: db')
qed

text \<open>A transaction that rewrites the row of one path and appends a running attempt, or changes its active one.\<close>

lemma create_attempt_eq:
  assumes "create_shared_build_attempt b now db = Inr (a, db')"
  shows "db_builds db' = db_builds db" "db_attempts db' = db_attempts db @ [a]" "db_outcomes db' = db_outcomes db"
    "db_next_attempt db' = db_next_attempt db + 1" "db_next_position db' = db_next_position db"
    "at_id a = db_next_attempt db" "at_path a = sb_path b" "at_ordinal a = next_ordinal (sb_path b) db"
    "same_backend b a" "at_state a = AttemptRunning"
  using assms by (auto simp: create_shared_build_attempt_def Let_def same_backend_def)

lemma find_build_same: "db_builds db' = db_builds db \<Longrightarrow> find_build q db' = find_build q db"
  by (simp add: find_build_def)

lemma attempts_of_snoc:
  "db_attempts db' = db_attempts db @ [a] \<Longrightarrow> attempts_of q db' = attempts_of q db @ (if at_path a = q then [a] else [])"
  by (simp add: attempts_of_def)

lemma next_ordinal_update [simp]: "next_ordinal path (update_build p f db) = next_ordinal path db"
  by (simp add: next_ordinal_def)

lemma mark_running_preserves:
  assumes "db_ok db" "find_build path db = Some r" "sb_state r = StateClaimed" "mark_running r now db = Inr (b, db')"
  shows "db_ok db'"
proof -
  define start where "start = (\<lambda>r :: shared_build. r\<lparr>sb_state := StateRunning, sb_started_at := Some now\<rparr>)"
  have p: "sb_path r = path" using find_build_Some [OF assms(2)] by simp
  obtain a where dec: "decode_shared_build (start r) = Inr (start r)"
    and a: "create_shared_build_attempt (start r) now (update_build path start db) = Inr (a, db')"
    using assms(4) unfolding mark_running_def start_def [symmetric] Let_def p
    by (auto simp: result_then_Inr decode_iff)
  note a = create_attempt_eq [OF a, simplified]
  have st: "sb_path (start r) = sb_path r" for r by (simp add: start_def)
  have old: "path_ok path (Some r) (attempts_of path db)" using db_okD(1) [OF assms(1), of path] assms(2) by simp
  have ord: "at_ordinal a = Suc (length (attempts_of path db))"
    using next_ordinal_ok [OF old] a(8) by (simp add: st p)
  have find: "find_build q db' = (if q = path then Some (start r) else find_build q db)" for q
    using find_build_same [OF a(1), of q] find_build_update [of start, OF st, of q path db] assms(2) by simp
  have att: "attempts_of q db' = (if q = path then attempts_of path db @ [a] else attempts_of q db)" for q
    using attempts_of_snoc [of db' "update_build path start db" a q] a(2,7) by (simp add: st p)
  have "path_ok path (Some (start r)) (attempts_of path db @ [a])"
    using old dec ord a(9,10) assms(3) p
    by (auto simp: path_ok_def row_ok_def attempts_fit_def start_def state_columns_def)
  moreover have "outcomes_ok (db_attempts db @ [a]) (db_outcomes db) (db_next_attempt db + 1)"
    using a(6,10) db_okD(3) [OF assms(1)] by (intro outcomes_ok_append) (simp_all add: attempt_active_def)
  ultimately show ?thesis
    using db_okD [OF assms(1)] st
    by (intro db_ok_change [OF assms(1), of path]) (simp_all add: find att a)
qed

lemma update_active_preserves:
  assumes "db_ok db" "find_build path db = Some r" "sb_state r = StateRunning"
    and f: "\<And>r. sb_path (f r) = sb_path r" "decode_shared_build (f r) = Inr (f r)" "state_columns (f r)"
      "sb_subject (f r) = sb_subject r" "sb_position (f r) = sb_position r" "sb_queued_at (f r) = sb_queued_at r"
    and g: "\<And>a. at_path (g a) = at_path a \<and> at_id (g a) = at_id a \<and> at_ordinal (g a) = at_ordinal a \<and> attempt_active (g a)"
    and fit: "\<And>a. at_state a = AttemptRunning \<Longrightarrow> same_backend r a \<Longrightarrow> same_backend (f r) (g a) \<and>
      at_state (g a) = (if sb_state (f r) = StateRunning then AttemptRunning else AttemptCollecting)"
    and "sb_state (f r) \<in> {StateRunning, StateCollecting}"
  shows "db_ok (update_attempts (attempt_matches path {AttemptRunning}) g (update_build path f db))" (is "db_ok ?db'")
proof -
  define as where "as = attempts_of path db"
  have old: "path_ok path (Some r) as" using db_okD(1) [OF assms(1), of path] assms(2) by (simp add: as_def)
  then have afit: "attempts_fit r as" and ord: "map at_ordinal as = [1..<Suc (length as)]" by (auto simp: path_ok_def)
  have ne: "as \<noteq> []" "at_state (last as) = AttemptRunning" "same_backend r (last as)"
    "list_all (\<lambda>a. \<not> attempt_active a) (butlast as)"
    using afit assms(3) by (auto simp: attempts_fit_def)
  have upd: "map (\<lambda>a. if at_state a \<in> {AttemptRunning} then g a else a) as = butlast as @ [g (last as)]"
    using map_active_last [OF afit, of "{AttemptRunning}" g] assms(3) ne(2) by simp
  have at: "at_path (g a) = at_path a" for a using g by simp
  have att: "attempts_of q ?db' = (if q = path then butlast as @ [g (last as)] else attempts_of q db)" for q
    using attempts_of_update_states [of g, OF at, of q path "{AttemptRunning}" "update_build path f db"] upd
    by (simp add: as_def)
  have find: "find_build q ?db' = (if q = path then Some (f r) else find_build q db)" for q
    using find_build_update [of f, OF f(1), of q path db] assms(2) by simp
  have "map at_ordinal (butlast as @ [g (last as)]) = map at_ordinal (butlast as @ [last as])" using g by simp
  then have ord': "map at_ordinal (butlast as @ [g (last as)]) = [1..<Suc (length (butlast as @ [g (last as)]))]"
    using ord ne(1) by simp
  have "path_ok path (Some (f r)) (butlast as @ [g (last as)])"
    unfolding path_ok_def using ord' old f fit [OF ne(2,3)] ne(4) assms(12)
    by (simp add: path_ok_def row_ok_def attempts_fit_def)
  moreover have "outcomes_ok (db_attempts ?db') (db_outcomes db) (db_next_attempt db)"
    using outcomes_ok_same [OF db_okD(3) [OF assms(1)], of "attempt_matches path {AttemptRunning}" g] g
    by (simp add: update_attempts_def attempt_matches_def attempt_active_def)
  ultimately show ?thesis
    using db_okD [OF assms(1)] f(1)
    by (intro db_ok_change [OF assms(1), of path]) (simp_all add: find_build_update [of f, OF f(1)] assms(2) att)
qed

lemma reassign_preserves:
  assumes "db_ok db" "reassign_running_shared_build path name kind caps execution db = Inr (b, db')"
  shows "db_ok db'"
proof -
  define assign where "assign = (\<lambda>r :: shared_build. r\<lparr>sb_backend_name := name, sb_backend_kind := kind,
    sb_capabilities := caps, sb_execution_id := execution\<rparr>)"
  define name_it where "name_it = (\<lambda>a :: build_attempt. a\<lparr>at_backend_name := name, at_backend_kind := kind,
    at_execution_id := execution\<rparr>)"
  let ?run = "attempt_matches path {AttemptRunning}"
  obtain r where r: "find_build path db = Some r" "sb_state r = StateRunning" "decode_shared_build (assign r) = Inr (assign r)"
    and db': "db' = update_attempts ?run name_it (update_build path assign db)"
    using assms(2) unfolding reassign_running_shared_build_def assign_def [symmetric] name_it_def [symmetric]
    by (auto simp: result_then_Inr Let_def decode_iff split: option.splits if_splits)
  have "row_ok r" using db_okD(1) [OF assms(1), of path] r(1) by (simp add: path_ok_def)
  then have cols: "state_columns (assign r)" using r(2) by (simp add: row_ok_def state_columns_def assign_def)
  define only where "only = (\<lambda>a. if at_state a = AttemptRunning then name_it a else a\<lparr>at_state := AttemptRunning\<rparr>)"
  have db'': "db' = update_attempts ?run only (update_build path assign db)"
    unfolding db' by (simp add: update_attempts_def attempt_matches_def only_def cong: if_cong)
  show ?thesis
    unfolding db'' using r cols
    by (intro update_active_preserves [OF assms(1) r(1,2)])
      (auto simp: assign_def name_it_def only_def attempt_active_def same_backend_def)
qed

lemma collect_preserves:
  assumes "db_ok db" "collect_shared_build path now db = Inr (b, db')"
  shows "db_ok db'"
proof -
  define gather where "gather = (\<lambda>r :: shared_build. r\<lparr>sb_state := StateCollecting, sb_collecting_at := Some now\<rparr>)"
  define gather_it where "gather_it = (\<lambda>a :: build_attempt. a\<lparr>at_state := AttemptCollecting, at_collecting_at := Some now\<rparr>)"
  obtain r where r: "find_build path db = Some r" "sb_state r = StateRunning" "decode_shared_build (gather r) = Inr (gather r)"
    and db': "db' = update_attempts (attempt_matches path {AttemptRunning}) gather_it (update_build path gather db)"
    using assms(2) unfolding collect_shared_build_def gather_def [symmetric] gather_it_def [symmetric]
    by (auto simp: result_then_Inr Let_def decode_iff split: option.splits if_splits)
  have "row_ok r" using db_okD(1) [OF assms(1), of path] r(1) by (simp add: path_ok_def)
  then have cols: "state_columns (gather r)" using r(2) by (simp add: row_ok_def state_columns_def gather_def)
  show ?thesis
    unfolding db' using r cols
    by (intro update_active_preserves [OF assms(1) r(1,2)])
      (auto simp: gather_def gather_it_def attempt_active_def same_backend_def)
qed

lemma finish_active:
  assumes "db_ok db" "find_build path db = Some r" "sb_state r \<in> {StateRunning, StateCollecting}"
    and "S \<subseteq> {AttemptRunning, AttemptCollecting}" "at_state (last (attempts_of path db)) \<in> S"
    and g: "\<And>a. at_path (g a) = at_path a \<and> at_id (g a) = at_id a \<and> at_ordinal (g a) = at_ordinal a \<and> \<not> attempt_active (g a)"
  shows "matching_attempts (attempt_matches path S) db = [last (attempts_of path db)]"
    and "q \<noteq> path \<Longrightarrow> attempts_of q (update_attempts (attempt_matches path S) g db) = attempts_of q db"
    and "list_all (\<lambda>a. \<not> attempt_active a) (attempts_of path (update_attempts (attempt_matches path S) g db))"
    and "map at_ordinal (attempts_of path (update_attempts (attempt_matches path S) g db)) = map at_ordinal (attempts_of path db)"
    and "oc_attempt oc = at_id (last (attempts_of path db)) \<Longrightarrow>
      outcomes_ok (db_attempts (update_attempts (attempt_matches path S) g db)) (db_outcomes db @ [oc]) (db_next_attempt db)"
proof -
  define as where "as = attempts_of path db"
  have fit: "attempts_fit r as" using db_okD(1) [OF assms(1), of path] assms(2) by (simp add: path_ok_def as_def)
  then have ne: "as \<noteq> []" "list_all (\<lambda>a. \<not> attempt_active a) (butlast as)" using assms(3) by (auto simp: attempts_fit_def)
  have last: "at_state (last as) \<in> S" using assms(5) by (simp add: as_def)
  show one: "matching_attempts (attempt_matches path S) db = [last (attempts_of path db)]"
    unfolding matching_states using filter_active_last [OF fit assms(3,4)] last by (simp add: as_def)
  have at: "at_path (g a) = at_path a" for a using g by simp
  have att: "attempts_of q (update_attempts (attempt_matches path S) g db) =
      (if q = path then butlast as @ [g (last as)] else attempts_of q db)" for q
    using attempts_of_update_states [of g, OF at, of q path S db] map_active_last [OF fit assms(3,4) last, of g]
    by (simp add: as_def)
  show "q \<noteq> path \<Longrightarrow> attempts_of q (update_attempts (attempt_matches path S) g db) = attempts_of q db" by (simp add: att)
  show "list_all (\<lambda>a. \<not> attempt_active a) (attempts_of path (update_attempts (attempt_matches path S) g db))"
    using ne(2) g by (simp add: att)
  have "map at_ordinal (butlast as @ [g (last as)]) = map at_ordinal (butlast as @ [last as])" using g by simp
  then have "map at_ordinal (butlast as @ [g (last as)]) = map at_ordinal as"
    by (simp only: append_butlast_last_id [OF ne(1)])
  then show "map at_ordinal (attempts_of path (update_attempts (attempt_matches path S) g db)) = map at_ordinal (attempts_of path db)"
    by (simp add: att as_def)
  have "attempt_active (last as)" using last assms(4) by (auto simp: attempt_active_def)
  then show "oc_attempt oc = at_id (last (attempts_of path db)) \<Longrightarrow>
      outcomes_ok (db_attempts (update_attempts (attempt_matches path S) g db)) (db_outcomes db @ [oc]) (db_next_attempt db)"
    using outcomes_ok_finish [OF db_okD(3) [OF assms(1)], of "attempt_matches path S" "last as" oc g] one g
    by (simp add: matching_attempts_def update_attempts_def as_def)
qed

lemma complete_preserves:
  assumes "db_ok db" "complete_shared_build path terminal failure metadata retention now db = Inr (b, db')"
  shows "db_ok db'"
proof -
  define finish where "finish = (\<lambda>r :: shared_build. r\<lparr>sb_state := terminal, sb_result := Some metadata, sb_failure := failure,
    sb_completed_at := Some now, sb_expires_at := Some (now + retention div 10 ^ 9 * 10 ^ 6)\<rparr>)"
  define close where "close = (\<lambda>a :: build_attempt. a\<lparr>at_state := terminal_attempt terminal, at_completed_at := Some now\<rparr>)"
  define outcome where "outcome = (\<lambda>a :: build_attempt. \<lparr>oc_attempt = at_id a,
    oc_classification = (case failure of None \<Rightarrow> ascii ''succeeded'' | Some c \<Rightarrow> c), oc_result = metadata\<rparr>)"
  let ?S = "{AttemptRunning, AttemptCollecting}"
  obtain r where r: "find_build path db = Some r" "decode_shared_build (finish r) = Inr (finish r)"
      "sb_state r \<in> {StateClaimed, StateRunning, StateCollecting}" and ends: "terminal \<in> {StateSucceeded, StateFailed}"
    and db': "if sb_state r = StateClaimed then db' = update_build path finish db
      else \<exists>a. matching_attempts (attempt_matches path ?S) db = [a] \<and>
        db' = insert_outcome (outcome a) (update_attempts (attempt_matches path ?S) close (update_build path finish db))"
    using assms(2) unfolding complete_shared_build_def finish_def [symmetric] close_def [symmetric]
    by (auto simp: result_then_Inr Let_def decode_iff outcome_def split: option.splits if_splits list.splits)
  have fin: "sb_path (finish r) = sb_path r" for r by (simp add: finish_def)
  have old: "path_ok path (Some r) (attempts_of path db)" using db_okD(1) [OF assms(1), of path] r(1) by simp
  have new: "path_ok path (Some (finish r)) as"
    if "list_all (\<lambda>a. \<not> attempt_active a) as" "map at_ordinal as = map at_ordinal (attempts_of path db)" for as
  proof -
    have "length as = length (attempts_of path db)" using map_eq_imp_length_eq [OF that(2)] .
    then show ?thesis
      using that old r(2) ends by (auto simp: path_ok_def row_ok_def attempts_fit_def finish_def state_columns_def)
  qed
  show ?thesis
  proof (cases "sb_state r = StateClaimed")
    case True
    then have db'': "db' = update_build path finish db" using db' by simp
    have "path_ok path (Some (finish r)) (attempts_of path db)"
      using old True by (intro new) (simp_all add: path_ok_def attempts_fit_def)
    then show ?thesis
      unfolding db'' using db_okD [OF assms(1)] fin
      by (intro db_ok_change [OF assms(1), of path]) (simp_all add: find_build_update [of finish, OF fin] r(1))
  next
    case False
    define db1 where "db1 = update_attempts (attempt_matches path ?S) close db"
    have act: "sb_state r \<in> {StateRunning, StateCollecting}" using False r(3) by simp
    have cl: "at_path (close a) = at_path a \<and> at_id (close a) = at_id a \<and> at_ordinal (close a) = at_ordinal a \<and>
      \<not> attempt_active (close a)" for a by (simp add: close_def attempt_active_def terminal_attempt_def)
    have st: "at_state (last (attempts_of path db)) \<in> ?S" using old act by (auto simp: path_ok_def attempts_fit_def)
    note f = finish_active [OF assms(1) r(1) act order_refl st, of close, OF cl, folded db1_def]
    define oc where "oc = outcome (last (attempts_of path db))"
    have oc: "oc_attempt oc = at_id (last (attempts_of path db))" by (simp add: oc_def outcome_def)
    have db'': "db' = insert_outcome oc (update_attempts (attempt_matches path ?S) close (update_build path finish db))"
      using db' False f(1) by (simp add: oc_def)
    have att: "db_attempts db' = db_attempts db1" unfolding db'' db1_def by (simp add: update_attempts_def)
    then have at: "attempts_of q db' = attempts_of q db1" for q by (simp add: attempts_of_def)
    have "path_ok path (Some (finish r)) (attempts_of path db1)" by (rule new [OF f(3,4)])
    moreover have "outcomes_ok (db_attempts db1) (db_outcomes db @ [oc]) (db_next_attempt db)" by (rule f(5) [OF oc])
    moreover have "db_outcomes db' = db_outcomes db @ [oc]" "db_next_attempt db' = db_next_attempt db"
      "db_next_position db' = db_next_position db" "map sb_path (db_builds db') = map sb_path (db_builds db)"
      "find_build q db' = (if q = path then Some (finish r) else find_build q db)" for q
      unfolding db'' using fin by (simp_all add: find_build_update [of finish, OF fin] r(1))
    ultimately show ?thesis
      using db_okD [OF assms(1)]
      by (intro db_ok_change [OF assms(1), of path]) (simp_all add: at att f(2))
  qed
qed

lemma update_attempts_cong:
  "(\<And>a. a \<in> set (db_attempts db) \<Longrightarrow> P a = Q a) \<Longrightarrow> update_attempts P f db = update_attempts Q f db"
  by (simp add: update_attempts_def)

lemma running_execution:
  assumes "db_ok db" "find_build path db = Some r" "sb_state r = StateRunning" "sb_execution_id r = Some current"
    and "a \<in> set (db_attempts db)"
  shows "(attempt_matches path {AttemptRunning} a \<and> at_execution_id a = Some current) = attempt_matches path {AttemptRunning} a"
proof -
  have fit: "attempts_fit r (attempts_of path db)" using db_okD(1) [OF assms(1), of path] assms(2) by (simp add: path_ok_def)
  have "at_execution_id a = Some current" if m: "attempt_matches path {AttemptRunning} a"
  proof -
    have "a \<in> set (filter (\<lambda>a. at_state a \<in> {AttemptRunning}) (attempts_of path db))"
      using m assms(5) by (simp add: attempts_of_def attempt_matches_def)
    then have "a \<in> set (if at_state (last (attempts_of path db)) \<in> {AttemptRunning} then [last (attempts_of path db)] else [])"
      by (subst (asm) filter_active_last [OF fit]) (simp_all add: assms(3))
    then have "a = last (attempts_of path db)" by (simp split: if_splits)
    then show ?thesis using fit assms(3,4) by (simp add: attempts_fit_def same_backend_def)
  qed
  then show ?thesis by blast
qed

lemma retry_preserves:
  assumes "db_ok db" "retry_shared_build path current next classification metadata now db = Inr (a, db')"
  shows "db_ok db'"
proof -
  define renew where "renew = (\<lambda>r :: shared_build. r\<lparr>sb_execution_id := Some next\<rparr>)"
  define close where "close = (\<lambda>a :: build_attempt. a\<lparr>at_state := AttemptFailed, at_completed_at := Some now\<rparr>)"
  define outcome where "outcome = (\<lambda>a :: build_attempt. \<lparr>oc_attempt = at_id a, oc_classification = classification, oc_result = metadata\<rparr>)"
  define running where "running = attempt_matches path {AttemptRunning}"
  define curr where "curr = (\<lambda>a. attempt_matches path {AttemptRunning} a \<and> at_execution_id a = Some current)"
  obtain r old where r: "find_build path db = Some r" "sb_state r = StateRunning" "sb_execution_id r = Some current"
      "decode_shared_build (renew r) = Inr (renew r)" and m: "matching_attempts curr db = [old]"
    and new: "create_shared_build_attempt (renew r) now
      (insert_outcome (outcome old) (update_attempts curr close (update_build path renew db))) = Inr (a, db')"
    using assms(2) unfolding retry_shared_build_def renew_def [symmetric] close_def [symmetric] curr_def [symmetric]
    by (auto simp: result_then_Inr Let_def decode_iff outcome_def split: option.splits if_splits list.splits)
  define as where "as = attempts_of path db"
  have curr: "a \<in> set (db_attempts db) \<Longrightarrow> curr a = running a" for a
    using running_execution [OF assms(1) r(1-3)] by (simp add: curr_def running_def)
  have old: "path_ok path (Some r) as" using db_okD(1) [OF assms(1), of path] r(1) by (simp add: as_def)
  have p: "sb_path r = path" using find_build_Some [OF r(1)] by simp
  have act: "sb_state r \<in> {StateRunning, StateCollecting}" using r(2) by simp
  have last: "at_state (last as) \<in> {AttemptRunning}" using old r(2) by (simp add: path_ok_def attempts_fit_def)
  have cl: "at_path (close a) = at_path a \<and> at_id (close a) = at_id a \<and> at_ordinal (close a) = at_ordinal a \<and>
    \<not> attempt_active (close a)" for a by (simp add: close_def attempt_active_def)
  define db1 where "db1 = update_attempts running close db"
  note f = finish_active [OF assms(1) r(1) act _ last [unfolded as_def], of close, OF _ cl, simplified,
    folded running_def db1_def as_def]
  have "matching_attempts curr db = matching_attempts running db"
    unfolding matching_attempts_def using curr by (rule filter_cong [OF refl])
  then have o: "old = last as" using m f(1) by simp
  have eq: "update_attempts curr close (update_build path renew db) = update_attempts running close (update_build path renew db)"
    using curr by (intro update_attempts_cong) simp
  have db1_attempts: "db_attempts (update_attempts running close (update_build path renew db)) = db_attempts db1"
    by (simp add: db1_def update_attempts_def)
  then have at1: "attempts_of q (update_attempts running close (update_build path renew db)) = attempts_of q db1" for q
    by (simp add: attempts_of_def)
  have rn: "sb_path (renew r) = sb_path r" for r by (simp add: renew_def)
  note a = create_attempt_eq [OF new [unfolded eq o], simplified, unfolded db1_attempts]
  have len: "length (attempts_of path db1) = length as" using map_eq_imp_length_eq [OF f(4)] .
  have ords: "map at_ordinal (attempts_of path db1) = [1..<Suc (length (attempts_of path db1))]"
    using f(4) old len by (simp add: path_ok_def)
  have ord: "at_ordinal a = Suc (length (attempts_of path db1))"
    using a(8) ords unfolding next_ordinal_def rn p
    by (simp only: insert_outcome_simps db1_attempts attempts_of_def [symmetric] foldr_max_upt)
  have att: "attempts_of q db' = (if q = path then attempts_of path db1 @ [a] else attempts_of q db)" for q
    using a(2,7) f(2) [of q] by (simp add: attempts_of_def rn p)
  have find: "find_build q db' = (if q = path then Some (renew r) else find_build q db)" for q
    using find_build_update [of renew, OF rn, of q path db] r(1) by (simp add: find_build_def a(1))
  have "path_ok path (Some (renew r)) (attempts_of path db1 @ [a])"
    unfolding path_ok_def upt_snoc_last
    using ords ord f(3) old r(2,4) a(9,10)
    by (simp add: path_ok_def row_ok_def attempts_fit_def renew_def state_columns_def del: upt_Suc)
  moreover have "outcomes_ok (db_attempts db1 @ [a]) (db_outcomes db @ [outcome (last as)]) (db_next_attempt db + 1)"
    using f(5) [of "outcome (last as)"] a(6,10)
    by (intro outcomes_ok_append) (simp_all add: attempt_active_def outcome_def)
  ultimately show ?thesis
    using db_okD [OF assms(1)] rn
    by (intro db_ok_change [OF assms(1), of path]) (simp_all add: find att a)
qed

lemma reachable_db_ok: "build_reachable db \<Longrightarrow> db_ok db"
proof (induction rule: build_reachable.induct)
  case reachable_empty
  show ?case
    by (simp add: db_ok_def empty_database_def find_build_def attempts_of_def path_ok_def outcomes_ok_def)
next
  case (reachable_step db db')
  note ok = reachable_step(3)
  from reachable_step(2) show ?case
  proof cases
    case (step_start_queued path maximum now b)
    then show ?thesis using mark_running_preserves [OF ok]
      by (auto simp: start_queued_shared_build_def result_then_Inr split: option.splits if_splits)
  next
    case (step_start path now b)
    then show ?thesis using mark_running_preserves [OF ok]
      by (auto simp: start_shared_build_def result_then_Inr split: option.splits if_splits)
  next
    case (step_claim path digest name kind caps execution outputs request now v)
    then show ?thesis using claim_preserves [OF ok] by (simp add: claim_shared_build_with_request_def split: if_splits)
  next
    case (step_claim_bare path digest name kind caps execution outputs now v)
    then show ?thesis using claim_preserves [OF ok] by (simp add: claim_shared_build_def)
  next
    case (step_success path metadata retention now b)
    then show ?thesis using complete_preserves [OF ok] by (simp add: complete_shared_build_success_def)
  next
    case (step_failure path classification metadata retention now b)
    then show ?thesis using complete_preserves [OF ok] by (simp add: complete_shared_build_failure_def)
  next
    case (step_record subject u)
    then show ?thesis using ok
      by (auto simp: record_shared_build_scheduler_subject_def db_ok_def find_build_def attempts_of_def split: if_splits)
  qed (rule enqueue_preserves [OF ok] reassign_preserves [OF ok] retry_preserves [OF ok] collect_preserves [OF ok]; assumption)+
qed

section \<open>Life cycle\<close>

text \<open>
  What the table promises of a derivation path: no build, then claimed, running, collecting and succeeded in this
  order, with a way to failed from every state before the last, and from failed back to claimed.
\<close>

fun life_step :: "shared_build_state option \<Rightarrow> shared_build_state option \<Rightarrow> bool" where
  "life_step None (Some StateClaimed) \<longleftrightarrow> True"
| "life_step (Some StateClaimed) (Some StateRunning) \<longleftrightarrow> True"
| "life_step (Some StateRunning) (Some StateCollecting) \<longleftrightarrow> True"
| "life_step (Some StateCollecting) (Some StateSucceeded) \<longleftrightarrow> True"
| "life_step (Some StateClaimed) (Some StateFailed) \<longleftrightarrow> True"
| "life_step (Some StateRunning) (Some StateFailed) \<longleftrightarrow> True"
| "life_step (Some StateCollecting) (Some StateFailed) \<longleftrightarrow> True"
| "life_step (Some StateFailed) (Some StateClaimed) \<longleftrightarrow> True"
| "life_step s s' \<longleftrightarrow> s' = s \<and> s \<noteq> None"

definition life :: "utf8 \<Rightarrow> database \<Rightarrow> shared_build_state option" where
  "life path db = map_option sb_state (find_build path db)"

definition moves_build :: "utf8 \<Rightarrow> database \<Rightarrow> database \<Rightarrow> bool" where
  "moves_build path db db' \<longleftrightarrow> (\<forall>q. q \<noteq> path \<longrightarrow> find_build q db' = find_build q db) \<and>
     (life_step (life path db) (life path db') \<and> life path db \<noteq> Some StateSucceeded \<or>
      find_build path db' = find_build path db)"

lemma moves_update:
  assumes "\<And>r. sb_path (f r) = sb_path r" "find_build path db = Some r"
    and "life_step (Some (sb_state r)) (Some (sb_state (f r)))" "sb_state r \<noteq> StateSucceeded"
    and "\<And>q. find_build q db' = find_build q (update_build path f db)"
  shows "moves_build path db db'"
  using assms(2-5) by (simp add: moves_build_def life_def find_build_update [of f, OF assms(1)])

lemma create_attempt_find:
  "create_shared_build_attempt b now db = Inr (a, db') \<Longrightarrow> find_build q db' = find_build q db"
  using create_attempt_eq(1) by (rule find_build_same)

lemma mark_running_moves:
  assumes "find_build path db = Some r" "sb_state r = StateClaimed" "mark_running r now db = Inr (b, db')"
  shows "moves_build path db db'"
proof -
  have p: "sb_path r = path" using find_build_Some [OF assms(1)] by simp
  obtain build a where "create_shared_build_attempt build now
      (update_build path (\<lambda>r. r\<lparr>sb_state := StateRunning, sb_started_at := Some now\<rparr>) db) = Inr (a, db')"
    using assms(3) by (auto simp: mark_running_def Let_def result_then_Inr p)
  then show ?thesis using assms(1,2) by (intro moves_update) (auto simp: create_attempt_find)
qed

lemma claim_moves:
  assumes "claim_shared_build_inner path digest name kind caps execution outputs request now db = Inr (v, db')"
  shows "moves_build path db db'"
proof -
  define row where "row = claimed_row path digest name kind caps execution outputs request now"
  have row: "sb_path row = path" "sb_state row = StateClaimed" by (simp_all add: row_def) (simp add: claimed_row_def)
  have db': "db' = snd (claim_row row db)"
    using assms unfolding claim_shared_build_inner_def row_def [symmetric]
    by (auto simp: result_then_Inr split: prod.splits option.splits if_splits)
  show ?thesis
  proof (cases "find_build path db")
    case None
    then show ?thesis unfolding db' claim_row_def row
      by (auto simp: moves_build_def life_def find_build_append row split: option.split)
  next
    case (Some r)
    then show ?thesis unfolding db' claim_row_def row
      by (cases "sb_state r = StateFailed") (simp_all add: moves_build_def life_def find_build_const row)
  qed
qed

lemma enqueue_moves:
  assumes "enqueue_shared_build path subject maximum now db = Inr (e, db')"
  shows "moves_build path db db'"
proof -
  obtain r where r: "find_build path db = Some r" "sb_state r = StateClaimed"
    and db': "db' = (update_build path (\<lambda>r. r\<lparr>sb_subject := Some subject, sb_position := Some (db_next_position db),
      sb_queued_at := Some now\<rparr>) db)\<lparr>db_next_position := db_next_position db + 1\<rparr>"
    using assms unfolding enqueue_shared_build_def
    by (auto simp: result_then_Inr Let_def split: option.splits if_splits)
  show ?thesis unfolding db' by (rule moves_update [OF _ r(1)]) (simp_all add: r(2) find_build_def)
qed

lemma reassign_moves:
  assumes "reassign_running_shared_build path name kind caps execution db = Inr (b, db')"
  shows "moves_build path db db'"
proof -
  obtain r P g where r: "find_build path db = Some r" "sb_state r = StateRunning"
    and db': "db' = update_attempts P g (update_build path (\<lambda>r. r\<lparr>sb_backend_name := name, sb_backend_kind := kind,
      sb_capabilities := caps, sb_execution_id := execution\<rparr>) db)"
    using assms unfolding reassign_running_shared_build_def
    by (auto simp: result_then_Inr Let_def split: option.splits if_splits)
  show ?thesis unfolding db' by (rule moves_update [OF _ r(1)]) (simp_all add: r(2))
qed

lemma retry_moves:
  assumes "retry_shared_build path current next classification metadata now db = Inr (a, db')"
  shows "moves_build path db db'"
proof -
  define renew where "renew = (\<lambda>r :: shared_build. r\<lparr>sb_execution_id := Some next\<rparr>)"
  obtain r b oc P g where r: "find_build path db = Some r" "sb_state r = StateRunning"
    and db': "create_shared_build_attempt b now (insert_outcome oc (update_attempts P g (update_build path renew db))) = Inr (a, db')"
    using assms unfolding retry_shared_build_def renew_def [symmetric]
    by (auto simp: result_then_Inr Let_def split: option.splits if_splits list.splits)
  show ?thesis by (rule moves_update [OF _ r(1), of renew]) (simp_all add: r(2) create_attempt_find [OF db'] renew_def)
qed

lemma collect_moves:
  assumes "collect_shared_build path now db = Inr (b, db')"
  shows "moves_build path db db'"
proof -
  obtain r P g where r: "find_build path db = Some r" "sb_state r = StateRunning"
    and db': "db' = update_attempts P g (update_build path (\<lambda>r. r\<lparr>sb_state := StateCollecting, sb_collecting_at := Some now\<rparr>) db)"
    using assms unfolding collect_shared_build_def
    by (auto simp: result_then_Inr Let_def split: option.splits if_splits)
  show ?thesis unfolding db' by (rule moves_update [OF _ r(1)]) (simp_all add: r(2))
qed

lemma complete_moves:
  assumes "complete_shared_build path terminal failure metadata retention now db = Inr (b, db')"
  shows "moves_build path db db'"
proof -
  define finish where "finish = (\<lambda>r :: shared_build. r\<lparr>sb_state := terminal, sb_result := Some metadata, sb_failure := failure,
    sb_completed_at := Some now, sb_expires_at := Some (now + retention div 10 ^ 9 * 10 ^ 6)\<rparr>)"
  obtain r where r: "find_build path db = Some r" "life_step (Some (sb_state r)) (Some terminal)" "sb_state r \<noteq> StateSucceeded"
    and db': "\<And>q. find_build q db' = find_build q (update_build path finish db)"
    using assms unfolding complete_shared_build_def finish_def [symmetric]
    by (auto simp: result_then_Inr Let_def split: option.splits if_splits list.splits)
  show ?thesis by (rule moves_update [OF _ r(1), of finish]) (use r(2,3) db' in \<open>simp_all add: finish_def\<close>)
qed

lemma step_moves:
  assumes "build_step db db'"
  shows "\<exists>path. moves_build path db db'"
  using assms
proof cases
  case (step_start_queued path maximum now b)
  then show ?thesis
    by (intro exI [of _ path])
      (auto simp: start_queued_shared_build_def result_then_Inr intro: mark_running_moves split: option.splits if_splits)
next
  case (step_start path now b)
  then show ?thesis
    by (intro exI [of _ path])
      (auto simp: start_shared_build_def result_then_Inr intro: mark_running_moves split: option.splits if_splits)
next
  case (step_claim path digest name kind caps execution outputs request now v)
  then have "moves_build path db db'"
    by (auto simp: claim_shared_build_with_request_def intro: claim_moves split: if_splits)
  then show ?thesis by blast
next
  case (step_claim_bare path digest name kind caps execution outputs now v)
  then have "moves_build path db db'" by (auto simp: claim_shared_build_def intro: claim_moves)
  then show ?thesis by blast
next
  case (step_success path metadata retention now b)
  then have "moves_build path db db'" by (auto simp: complete_shared_build_success_def intro: complete_moves)
  then show ?thesis by blast
next
  case (step_failure path classification metadata retention now b)
  then have "moves_build path db db'" by (auto simp: complete_shared_build_failure_def intro: complete_moves)
  then show ?thesis by blast
next
  case (step_record subject u)
  then show ?thesis by (auto simp: record_shared_build_scheduler_subject_def moves_build_def find_build_def split: if_splits)
qed (rule exI, rule enqueue_moves reassign_moves retry_moves collect_moves, assumption)+

section \<open>Quotas\<close>












section \<open>Progress\<close>

lemma ok_row:
  assumes "db_ok db" "find_build path db = Some r"
  shows "sb_path r = path" "row_ok r" "attempts_fit r (attempts_of path db)" "validate_shared_build_identity path = Inr ()"
proof -
  show r: "sb_path r = path" "row_ok r" "attempts_fit r (attempts_of path db)"
    using db_okD(1) [OF assms(1), of path] assms(2) by (auto simp: path_ok_def)
  show "validate_shared_build_identity path = Inr ()"
    using r(1,2) by (auto simp: row_ok_def decode_iff build_identity_def validate_shared_build_claim_def Let_def
        validate_shared_build_identity_def split: if_splits)
qed




lemma filter_find_unique:
  "distinct (map sb_path rs) \<Longrightarrow>
     filter (\<lambda>r. sb_path r = path) rs = (case List.find (\<lambda>r. sb_path r = path) rs of None \<Rightarrow> [] | Some r \<Rightarrow> [r])"
proof (induction rs)
  case (Cons r rs)
  show ?case
  proof (cases "sb_path r = path")
    case True
    then have "filter (\<lambda>r. sb_path r = path) rs = []" using Cons.prems by (auto simp: filter_empty_conv image_iff)
    then show ?thesis using True by simp
  qed (use Cons in simp)
qed simp

lemma read_ok:
  assumes "db_ok db" "text_within MAXIMUM_WORKER_STORE_PATH_BYTES path"
  shows "read_shared_build path db = Inr (find_build path db)"
proof -
  have "query_opt (filter (\<lambda>r. sb_path r = path) (db_builds db)) = Inr (find_build path db)"
    unfolding filter_find_unique [OF db_okD(2) [OF assms(1)]] find_build_def query_opt_def
    by (simp split: option.split)
  moreover have "decode_option (find_build path db) = Inr (find_build path db)"
    using ok_row(2) [OF assms(1), of path] by (cases "find_build path db") (simp_all add: decode_option_def row_ok_def)
  ultimately show ?thesis
    using assms(2) by (simp add: read_shared_build_def validate_shared_build_identity_def)
qed

lemma last_attempt_ok:
  assumes "db_ok db" "text_within MAXIMUM_WORKER_STORE_PATH_BYTES path" "attempts_of path db \<noteq> []"
  shows "read_shared_build_attempt path db = Inr (Some (last (attempts_of path db)))"
proof -
  have "sorted (map at_ordinal (attempts_of path db))"
    using db_okD(1) [OF assms(1), of path] unfolding path_ok_def by (metis sorted_upt)
  then have "sort_key at_ordinal (attempts_of path db) = attempts_of path db" by (rule sort_key_id_if_sorted)
  moreover have "(case rev (attempts_of path db) of [] \<Rightarrow> Inr None | a # _ \<Rightarrow> Inr (Some a)) =
      (Inr (Some (last (attempts_of path db))) :: shared_build_failure + build_attempt option)"
    using assms(3) by (cases "attempts_of path db" rule: rev_cases) auto
  ultimately show ?thesis
    using assms(2) by (simp add: read_shared_build_attempt_def validate_shared_build_identity_def attempts_of_def [symmetric])
qed

lemma find_unique_path:
  assumes "distinct (map sb_path (db_builds db))" "r \<in> set (db_builds db)"
  shows "find_build (sb_path r) db = Some r"
proof -
  have "distinct (map sb_path rs) \<Longrightarrow> r \<in> set rs \<Longrightarrow> List.find (\<lambda>x. sb_path x = sb_path r) rs = Some r" for rs
    by (induction rs) force+
  then show ?thesis using assms by (simp add: find_build_def)
qed

lemma fit_active:
  assumes "attempts_fit r as"
  shows "filter attempt_active as = (if sb_state r \<in> {StateRunning, StateCollecting} then [last as] else [])"
proof (cases "sb_state r \<in> {StateRunning, StateCollecting}")
  case True
  then have "at_state (last as) \<in> {AttemptRunning, AttemptCollecting}" using assms by (auto simp: attempts_fit_def split: if_splits)
  then show ?thesis
    using filter_active_last [OF assms True order_refl] True unfolding attempt_active_def [symmetric, abs_def] by simp
qed (use assms in \<open>auto simp: attempts_fit_def filter_empty_conv list_all_iff\<close>)

section \<open>Properties\<close>

definition example_path :: utf8 where "example_path = ascii ''/nix/store/example.drv''"

definition example_claim :: "(shared_build_ownership \<times> shared_build) transaction" where
  "example_claim = claim_shared_build example_path (replicate 32 0) (ascii ''local'') LocalKind (capabilities LocalKind) None
     [ascii ''/nix/store/example''] 1"

definition final_database :: "shared_build_failure + ('a \<times> database) \<Rightarrow> database" where
  "final_database r = (case r of Inl _ \<Rightarrow> empty_database | Inr (_, db) \<Rightarrow> db)"

definition example_claimed :: database where
  "example_claimed = final_database (example_claim empty_database)"

definition example_queued :: database where
  "example_queued = final_database (enqueue_shared_build example_path (ascii ''alice'') 1 2 example_claimed)"

definition example_running :: database where
  "example_running = final_database (start_queued_shared_build example_path 1 3 example_queued)"

lemma example_steps:
  "\<exists>v. example_claim empty_database = Inr (v, example_claimed)"
  "\<exists>e. enqueue_shared_build example_path (ascii ''alice'') 1 2 example_claimed = Inr (e, example_queued)"
  "\<exists>b. start_queued_shared_build example_path 1 3 example_queued = Inr (b, example_running)"
proof -
  have ok: "(case t of Inl _ \<Rightarrow> False | Inr _ \<Rightarrow> True) \<Longrightarrow> \<exists>v. t = Inr (v, final_database t)"
    for t :: "shared_build_failure + ('a \<times> database)"
    by (cases t) (auto simp: final_database_def)
  show "\<exists>v. example_claim empty_database = Inr (v, example_claimed)"
    unfolding example_claimed_def by (rule ok) code_simp
  show "\<exists>e. enqueue_shared_build example_path (ascii ''alice'') 1 2 example_claimed = Inr (e, example_queued)"
    unfolding example_queued_def by (rule ok) code_simp
  show "\<exists>b. start_queued_shared_build example_path 1 3 example_queued = Inr (b, example_running)"
    unfolding example_running_def by (rule ok) code_simp
qed

lemma example_reachable: "build_reachable example_claimed" "build_reachable example_queued" "build_reachable example_running"
proof -
  show c: "build_reachable example_claimed"
    using example_steps(1) unfolding example_claim_def by (blast intro: reachable_step reachable_empty step_claim_bare)
  show q: "build_reachable example_queued" using example_steps(2) by (blast intro: reachable_step [OF c] step_enqueue)
  show "build_reachable example_running" using example_steps(3) by (blast intro: reachable_step [OF q] step_start_queued)
qed

text \<open>
  C1: In every state the transactions can reach, from an empty database and in any order, each derivation path
  has one row, its attempts are numbered from one without gaps, exactly the last attempt of a running or collecting
  build is active and it names the backend and the state of the row, no other build has an active attempt, every attempt
  belongs to a row, every finished attempt has exactly one outcome and no active attempt has one, and
  reading a build or its attempt never fails to decode.
\<close>

theorem shared_build_records_consistent:
  assumes "build_reachable db"
  shows "distinct (map sb_path (db_builds db)) \<and> distinct (map at_id (db_attempts db)) \<and>
    (\<forall>path. map at_ordinal (attempts_of path db) = [1..<Suc (length (attempts_of path db))]) \<and>
    (\<forall>r\<in>set (db_builds db). state_columns r \<and> queue_columns (sb_subject r) (sb_position r) (sb_queued_at r) \<and>
       filter attempt_active (attempts_of (sb_path r) db) =
         (if sb_state r \<in> {StateRunning, StateCollecting} then [last (attempts_of (sb_path r) db)] else [])) \<and>
    (\<forall>r\<in>set (db_builds db). sb_state r \<in> {StateRunning, StateCollecting} \<longrightarrow>
       same_backend r (last (attempts_of (sb_path r) db)) \<and>
       at_state (last (attempts_of (sb_path r) db)) = (if sb_state r = StateRunning then AttemptRunning else AttemptCollecting)) \<and>
    (\<forall>a\<in>set (db_attempts db). find_build (at_path a) db \<noteq> None) \<and>
    distinct (map oc_attempt (db_outcomes db)) \<and>
    set (map oc_attempt (db_outcomes db)) = at_id ` {a \<in> set (db_attempts db). \<not> attempt_active a} \<and>
    (\<forall>path. text_within MAXIMUM_WORKER_STORE_PATH_BYTES path \<longrightarrow> read_shared_build path db = Inr (find_build path db) \<and>
       (attempts_of path db \<noteq> [] \<longrightarrow> read_shared_build_attempt path db = Inr (Some (last (attempts_of path db)))))"
proof -
  have ok: "db_ok db" by (rule reachable_db_ok [OF assms])
  have paths: "path_ok path (find_build path db) (attempts_of path db)" for path by (rule db_okD(1) [OF ok])
  have find: "find_build (sb_path r) db = Some r" if "r \<in> set (db_builds db)" for r
    using find_unique_path [OF db_okD(2) [OF ok] that] .
  have rows: "state_columns r \<and> queue_columns (sb_subject r) (sb_position r) (sb_queued_at r)" "attempts_fit r (attempts_of (sb_path r) db)"
    if "r \<in> set (db_builds db)" for r
    using ok_row(2,3) [OF ok find [OF that]] by (simp_all add: row_ok_def)
  have active: "filter attempt_active (attempts_of (sb_path r) db) =
      (if sb_state r \<in> {StateRunning, StateCollecting} then [last (attempts_of (sb_path r) db)] else [])"
    if "r \<in> set (db_builds db)" for r
    by (rule fit_active [OF rows(2) [OF that]])
  have last: "same_backend r (last (attempts_of (sb_path r) db)) \<and>
       at_state (last (attempts_of (sb_path r) db)) = (if sb_state r = StateRunning then AttemptRunning else AttemptCollecting)"
    if "r \<in> set (db_builds db)" "sb_state r \<in> {StateRunning, StateCollecting}" for r
    using rows(2) [OF that(1)] that(2) by (simp add: attempts_fit_def)
  have owned: "find_build (at_path a) db \<noteq> None" if "a \<in> set (db_attempts db)" for a
  proof
    assume "find_build (at_path a) db = None"
    then have "attempts_of (at_path a) db = []" using paths [of "at_path a"] by (simp add: path_ok_def)
    then show False using that by (auto simp: attempts_of_def filter_empty_conv)
  qed
  show ?thesis
    using db_okD(2,3) [OF ok] paths rows(1) active last owned read_ok [OF ok] last_attempt_ok [OF ok]
    by (simp add: outcomes_ok_def path_ok_def del: upt_Suc)
qed

theorem shared_build_records_consistent_witness:
  "filter attempt_active (attempts_of example_path example_running) = [last (attempts_of example_path example_running)] \<and>
   map at_ordinal (attempts_of example_path example_running) = [1] \<and> db_outcomes example_running = []"
proof -
  have row: "example_running \<in> {db. length (db_builds db) = 1 \<and> sb_path (hd (db_builds db)) = example_path \<and>
      sb_state (hd (db_builds db)) = StateRunning \<and> db_outcomes db = [] \<and> map at_ordinal (attempts_of example_path db) = [1]}"
    unfolding mem_Collect_eq by code_simp
  then obtain r where r: "db_builds example_running = [r]" "sb_path r = example_path" "sb_state r = StateRunning"
    by (cases "db_builds example_running") auto
  then show ?thesis using shared_build_records_consistent [OF example_reachable(3)] row by simp
qed

text \<open>
  C7: Every transaction changes the row of at most one derivation path, and it changes its state only along the
  life cycle: none to claimed, claimed to running, running to collecting, collecting to succeeded, any of these three to failed and
  failed back to claimed. The row of a succeeded build is never changed again and no row is ever removed.
\<close>

theorem shared_build_life_cycle:
  assumes "build_step db db'"
  shows "(\<exists>path. \<forall>q. q \<noteq> path \<longrightarrow> find_build q db' = find_build q db) \<and>
    (\<forall>q. find_build q db' = find_build q db \<or> life_step (life q db) (life q db')) \<and>
    (\<forall>q r. find_build q db = Some r \<longrightarrow> find_build q db' \<noteq> None \<and> (sb_state r = StateSucceeded \<longrightarrow> find_build q db' = Some r))"
proof -
  obtain path where m: "\<And>q. q \<noteq> path \<Longrightarrow> find_build q db' = find_build q db"
    "life_step (life path db) (life path db') \<and> life path db \<noteq> Some StateSucceeded \<or> find_build path db' = find_build path db"
    using step_moves [OF assms] by (auto simp: moves_build_def)
  have kept: "find_build q db' \<noteq> None" if "find_build q db = Some r" for q r
  proof (cases "q = path")
    case True
    have no: "\<not> life_step (Some s) None" for s by (cases s) auto
    show ?thesis
      using m(2) that no [of "sb_state r"] True by (cases "find_build path db'") (auto simp: life_def)
  qed (use m(1) that in simp)
  show ?thesis
  proof (intro conjI allI impI)
    show "\<exists>path. \<forall>q. q \<noteq> path \<longrightarrow> find_build q db' = find_build q db" using m(1) by blast
    show "find_build q db' = find_build q db \<or> life_step (life q db) (life q db')" for q using m by (cases "q = path") auto
    show "find_build q db' = Some r" if "find_build q db = Some r" "sb_state r = StateSucceeded" for q r
      using m that by (cases "q = path") (auto simp: life_def)
  qed (rule kept)
qed

theorem shared_build_life_cycle_witness:
  "life_step (life example_path example_queued) (life example_path example_running) \<and>
   life example_path example_running = Some StateRunning"
proof -
  have l: "life example_path example_queued = Some StateClaimed" "life example_path example_running = Some StateRunning"
    by code_simp+
  then have "find_build example_path example_running \<noteq> find_build example_path example_queued" by (auto simp: life_def)
  moreover obtain b where "start_queued_shared_build example_path 1 3 example_queued = Inr (b, example_running)"
    using example_steps(3) by blast
  ultimately show ?thesis using shared_build_life_cycle [OF step_start_queued] l(2) by blast
qed






end
