(* ===== verification/Scheduler.thy ===== *)
theory Scheduler
  imports Shared_Builds "HOL-Library.List_Lexorder"
begin

text \<open>
  The scheduler of \<^verbatim>\<open>telchar/src/shared_build/scheduler.rs\<close>, which admits queued builds in turns over the quota
  subjects, and the queue queries it uses. Subjects are compared by their bytes; the collation of the database, which only
  decides which subjects come under the \<^verbatim>\<open>LIMIT\<close> of the query, is the parameter \<^verbatim>\<open>collate\<close>. The clock of each
  transaction is the parameter \<^verbatim>\<open>now\<close>. Waiting for ownership and on the condition variable is left out.
\<close>

section \<open>Queue\<close>

definition MAXIMUM_SCHEDULING_SUBJECTS :: nat where "MAXIMUM_SCHEDULING_SUBJECTS = 256"

definition queued_rows :: "database \<Rightarrow> shared_build list" where
  "queued_rows db = filter (\<lambda>r. sb_state r = StateClaimed \<and> sb_subject r \<noteq> None) (db_builds db)"

definition row_position :: "shared_build \<Rightarrow> nat" where
  "row_position r = (case sb_position r of None \<Rightarrow> 0 | Some n \<Rightarrow> n)"

fun decode_entries :: "shared_build list \<Rightarrow> shared_build_failure + queue_entry list" where
  "decode_entries [] = Inr []"
| "decode_entries (r # rs) =
     result_then (decode_shared_build_queue_entry r) (\<lambda>e.
     result_then (decode_entries rs) (\<lambda>es. Inr (e # es)))"

definition read_queued_shared_builds :: "nat \<Rightarrow> database \<Rightarrow> shared_build_failure + queue_entry list" where
  "read_queued_shared_builds limit db =
     (if limit = 0 \<or> 256 < limit then Inl Configuration
      else decode_entries (take limit (sort_key row_position (queued_rows db))))"

definition queued_subjects :: "database \<Rightarrow> utf8 list" where
  "queued_subjects db = remdups (map (\<lambda>r. the (sb_subject r)) (queued_rows db))"

definition queue_of :: "utf8 \<Rightarrow> database \<Rightarrow> shared_build list" where
  "queue_of subject db = sort_key row_position (filter (\<lambda>r. sb_subject r = Some subject) (queued_rows db))"

definition select_entry :: "utf8 option \<Rightarrow> queue_entry list \<Rightarrow> queue_entry option" where
  "select_entry after entries =
     (case Option.bind after (\<lambda>subject. List.find (\<lambda>e. subject < qe_subject e) entries) of
        Some e \<Rightarrow> Some e
      | None \<Rightarrow> (case entries of [] \<Rightarrow> None | e # _ \<Rightarrow> Some e))"

definition read_next_queued_shared_build ::
  "(utf8 list \<Rightarrow> utf8 list) \<Rightarrow> utf8 option \<Rightarrow> nat \<Rightarrow> database \<Rightarrow> shared_build_failure + queue_entry option" where
  "read_next_queued_shared_build collate after maximum_subjects db =
     (if maximum_subjects = 0 \<or> 256 < maximum_subjects \<or>
         (case after of None \<Rightarrow> False | Some s \<Rightarrow> \<not> text_within MAX_IPC_CREDENTIAL_ID_BYTES s)
      then Inl Configuration
      else
        result_then (decode_entries (map (\<lambda>s. hd (queue_of s db)) (take maximum_subjects (collate (queued_subjects db)))))
          (\<lambda>entries. Inr (select_entry after (sort_key qe_subject entries))))"

section \<open>Scheduler\<close>

definition shared_build_error :: "shared_build_failure \<Rightarrow> io_error" where
  "shared_build_error f = IoError (if f = Quota then WouldBlock else Other) ''shared build scheduling failed''"

fun admit_loop ::
  "(utf8 list \<Rightarrow> utf8 list) \<Rightarrow> (utf8 \<Rightarrow> nat) \<Rightarrow> (nat \<Rightarrow> nat) \<Rightarrow> nat \<Rightarrow> nat \<Rightarrow> utf8 option \<Rightarrow> utf8 option \<Rightarrow> database
     \<Rightarrow> (io_error + unit) \<times> utf8 option \<times> database" where
  "admit_loop collate limits now 0 examined cursor last_admitted db = (Inr (), last_admitted, db)"
| "admit_loop collate limits now (Suc remaining) examined cursor last_admitted db =
     (case read_next_queued_shared_build collate cursor MAXIMUM_SCHEDULING_SUBJECTS db of
        Inl f \<Rightarrow> (Inl (shared_build_error f), last_admitted, db)
      | Inr None \<Rightarrow> (Inr (), last_admitted, db)
      | Inr (Some entry) \<Rightarrow>
          if 0 < examined \<and> last_admitted = Some (qe_subject entry) then (Inr (), last_admitted, db)
          else
            (case start_queued_shared_build (qe_path entry) (limits (qe_subject entry)) (now remaining) db of
               Inr (_, db1) \<Rightarrow>
                 (case record_shared_build_scheduler_subject (qe_subject entry) db1 of
                    Inl f \<Rightarrow> (Inl (shared_build_error f), last_admitted, db1)
                  | Inr (_, db2) \<Rightarrow>
                      admit_loop collate limits now remaining (Suc examined) (Some (qe_subject entry)) (Some (qe_subject entry)) db2)
             | Inl Quota \<Rightarrow> admit_loop collate limits now remaining (Suc examined) (Some (qe_subject entry)) last_admitted db
             | Inl InvalidState \<Rightarrow> admit_loop collate limits now remaining (Suc examined) (Some (qe_subject entry)) last_admitted db
             | Inl f \<Rightarrow> (Inl (shared_build_error f), last_admitted, db)))"

definition admit_eligible_builds ::
  "(utf8 list \<Rightarrow> utf8 list) \<Rightarrow> (utf8 \<Rightarrow> nat) \<Rightarrow> (nat \<Rightarrow> nat) \<Rightarrow> utf8 option \<Rightarrow> database
     \<Rightarrow> (io_error + unit) \<times> utf8 option \<times> database" where
  "admit_eligible_builds collate limits now last_admitted db =
     admit_loop collate limits now MAXIMUM_SCHEDULING_SUBJECTS 0 last_admitted last_admitted db"

definition new_scheduler :: "database \<Rightarrow> utf8 option" where
  "new_scheduler db = read_shared_build_scheduler_subject db"

text \<open>One round of \<^verbatim>\<open>wait_for_admission\<close>: the admitted build, or \<^verbatim>\<open>None\<close> to wait for the next round.\<close>

definition admission_round ::
  "(utf8 list \<Rightarrow> utf8 list) \<Rightarrow> (utf8 \<Rightarrow> nat) \<Rightarrow> (nat \<Rightarrow> nat) \<Rightarrow> utf8 \<Rightarrow> utf8 option \<Rightarrow> database
     \<Rightarrow> (io_error + shared_build option) \<times> utf8 option \<times> database" where
  "admission_round collate limits now path last_admitted db =
     (case admit_eligible_builds collate limits now last_admitted db of
        (Inl e, last1, db1) \<Rightarrow> (Inl e, last1, db1)
      | (Inr _, last1, db1) \<Rightarrow>
          ((case read_shared_build path db1 of
              Inl f \<Rightarrow> Inl (shared_build_error f)
            | Inr None \<Rightarrow> Inl (IoError Other ''queued shared build is unavailable'')
            | Inr (Some build) \<Rightarrow>
                (case sb_state build of
                   StateRunning \<Rightarrow> Inr (Some build)
                 | StateClaimed \<Rightarrow> Inr None
                 | _ \<Rightarrow> Inl (IoError Other ''queued shared build cannot be admitted''))), last1, db1))"

section \<open>The next subject\<close>








section \<open>What the query returns\<close>















section \<open>Rounds\<close>














section \<open>Properties\<close>

definition after :: "'a transaction \<Rightarrow> database \<Rightarrow> database" where
  "after t db = (case t db of Inl _ \<Rightarrow> db | Inr (_, db') \<Rightarrow> db')"












end
