(* ===== verification/Spec2Isabelle.thy ===== *)
theory Spec2Isabelle
  imports Requests Handshake Nar Transfer_Session Transfer_Limits Disk_Reserve Scheduler
begin

text \<open>
  Verification of Telchar, a gateway that speaks the Nix worker protocol.
\<close>

end
